(* ===== verification/Go_Prelude.thy ===== *)
theory Go_Prelude
  imports Main "HOL-Library.AList" "HOL-Library.State_Monad" "HOL-Library.Sublist"
    "HOL-Library.Char_ord" "HOL-Library.List_Lexorder"
begin

text \<open>
  Shared ground of the development.

  \<^item> Go values: string-keyed maps as association lists (\<open>smap\<close>), nanosecond times and
    durations, the error values the code returns.
  \<^item> Effects: a program is a \<open>State_Monad\<close> computation over a state that carries the
    history of everything it asked of the outside world (\<open>call\<close>). Each entry of the
    history holds a request together with the answer; the answer is computed by an oracle
    from the history so far, so quantifying over oracles quantifies over every behaviour
    of the API server, the Talos nodes, the BMCs and the clock.
  \<^item> Reasoning: weakest preconditions (\<open>wp\<close>, rules collected in \<open>go_wp\<close>) and relations
    between the state before and after (\<open>obeys\<close>, locale \<open>effect\<close>, rules collected in
    \<open>go_effect\<close>).
\<close>

named_theorems go_wp
named_theorems go_effect
named_theorems go_map

section \<open>Maps with string keys\<close>

type_synonym smap = "(string \<times> string) list"

text \<open>Go's \<open>m[k]\<close>: the zero value for an absent key.\<close>

definition mget :: "smap \<Rightarrow> string \<Rightarrow> string" where
  "mget m k = (case map_of m k of None \<Rightarrow> '''' | Some v \<Rightarrow> v)"

text \<open>Go's \<open>_, ok := m[k]\<close>.\<close>

definition mhas :: "(string \<times> 'v) list \<Rightarrow> string \<Rightarrow> bool" where
  "mhas m k = (map_of m k \<noteq> None)"

definition mput :: "string \<Rightarrow> 'v \<Rightarrow> (string \<times> 'v) list \<Rightarrow> (string \<times> 'v) list" where
  "mput k v m = AList.update k v m"

definition mdel :: "string \<Rightarrow> (string \<times> 'v) list \<Rightarrow> (string \<times> 'v) list" where
  "mdel k m = AList.delete k m"

text \<open>Each key of a Go map occurs once.\<close>

definition wf_map :: "(string \<times> 'v) list \<Rightarrow> bool" where
  "wf_map m = distinct (map fst m)"

lemma map_of_mput [go_map, simp]: "map_of (mput k v m) k' = (if k' = k then Some v else map_of m k')"
  by (simp add: mput_def update_conv')

lemma map_of_mdel [go_map, simp]: "map_of (mdel k m) k' = (if k' = k then None else map_of m k')"
  by (simp add: mdel_def delete_conv')

lemma wf_map_mput [simp, intro]: "wf_map m \<Longrightarrow> wf_map (mput k v m)"
  by (simp add: wf_map_def mput_def distinct_update)

lemma wf_map_mdel [simp, intro]: "wf_map m \<Longrightarrow> wf_map (mdel k m)"
  by (simp add: wf_map_def mdel_def distinct_delete)

lemma wf_map_Nil [simp]: "wf_map []"
  by (simp add: wf_map_def)

lemma mhas_mput [go_map, simp]: "mhas (mput k v m) k' = (k' = k \<or> mhas m k')"
  by (simp add: mhas_def)

lemma mhas_mdel [go_map, simp]: "mhas (mdel k m) k' = (k' \<noteq> k \<and> mhas m k')"
  by (simp add: mhas_def)

lemma mget_mput [go_map, simp]: "mget (mput k v m) k' = (if k' = k then v else mget m k')"
  by (simp add: mget_def)

lemma mhas_iff_fst: "mhas m k = (k \<in> fst ` set m)"
  by (simp add: mhas_def map_of_eq_None_iff)

lemma wf_map_mem_iff: "wf_map m \<Longrightarrow> (k, v) \<in> set m \<longleftrightarrow> map_of m k = Some v"
  by (simp add: wf_map_def)

text \<open>Deleting a list of keys, one after the other.\<close>

definition mdel_all :: "string list \<Rightarrow> (string \<times> 'v) list \<Rightarrow> (string \<times> 'v) list" where
  "mdel_all ks m = fold mdel ks m"

lemma map_of_mdel_all [go_map, simp]:
  "map_of (mdel_all ks m) k = (if k \<in> set ks then None else map_of m k)"
  unfolding mdel_all_def by (induction ks arbitrary: m) auto

lemma wf_map_mdel_all [simp, intro]: "wf_map m \<Longrightarrow> wf_map (mdel_all ks m)"
  unfolding mdel_all_def by (induction ks arbitrary: m) auto

lemma mhas_mdel_all [go_map, simp]: "mhas (mdel_all ks m) k = (k \<notin> set ks \<and> mhas m k)"
  by (simp add: mhas_def)

section \<open>Keys, times and errors\<close>

text \<open>\<open>types.NamespacedName\<close>, \<open>client.ObjectKey\<close>.\<close>

record ObjectKey =
  Namespace :: string
  Name :: string

text \<open>Instants and durations in nanoseconds; an instant counts from the Unix epoch.\<close>

type_synonym time = int
type_synonym duration = int

definition Second :: duration where
  "Second = 1000000000"

definition Minute :: duration where
  "Minute = 60 * Second"

text \<open>
  Failures of the API server. The code only ever asks \<open>apierrors.IsNotFound\<close>.
\<close>

datatype api_error = NotFound | ApiError string

definition IsNotFound :: "api_error \<Rightarrow> bool" where
  "IsNotFound e = (e = NotFound)"

text \<open>
  Errors the code returns: an API failure, a failure of another collaborator, an error made
  here (\<open>errors.New\<close>, \<open>fmt.Errorf\<close>), one wrapped with \<open>%w\<close> under a prefix, and the
  wrapping under the sentinel \<open>errTransient\<close>. \<open>NilDeref\<close> is the run-time panic of a nil
  pointer dereference, which the code never returns but could raise.
\<close>

datatype go_error =
    EApi api_error
  | EExt string
  | ENew string
  | EWrap string go_error
  | ETransient go_error
  | NilDeref

fun is_transient :: "go_error \<Rightarrow> bool" where
  "is_transient (ETransient _) = True"
| "is_transient _ = False"

text \<open>The unwrapping chain of an error, as \<open>errors.Is\<close> follows it.\<close>

fun err_root :: "go_error \<Rightarrow> go_error" where
  "err_root (EWrap _ e) = err_root e"
| "err_root (ETransient e) = err_root e"
| "err_root e = e"

definition no_panic :: "go_error + 'a \<Rightarrow> bool" where
  "no_panic r = (case r of Inl e \<Rightarrow> err_root e \<noteq> NilDeref | Inr _ \<Rightarrow> True)"

lemma no_panic_simps [simp]:
  "no_panic (Inr a)" "no_panic (Inl e) = (err_root e \<noteq> NilDeref)"
  by (simp_all add: no_panic_def)

section \<open>Programs and their history\<close>

record 'o world =
  hist :: "'o list"

type_synonym ('o, 'z, 'a) prog = "(('o, 'z) world_scheme, 'a) state"

abbreviation ret :: "'a \<Rightarrow> ('s, 'a) state" where
  "ret \<equiv> State_Monad.return"

text \<open>
  One interaction: the oracle \<open>f\<close> answers from the history, and request and answer
  are appended to it.
\<close>

definition call :: "('r \<Rightarrow> 'o) \<Rightarrow> ('o list \<Rightarrow> 'r) \<Rightarrow> ('o, 'z, 'r) prog" where
  "call mk f = State (\<lambda>s. let r = f (hist s) in (r, s\<lparr>hist := hist s @ [mk r]\<rparr>))"

text \<open>An interaction whose answer is of no interest (an event, a counter).\<close>

definition emit :: "'o \<Rightarrow> ('o, 'z, unit) prog" where
  "emit x = State (\<lambda>s. ((), s\<lparr>hist := hist s @ [x]\<rparr>))"

lemma run_call [simp]:
  "run_state (call mk f) s = (f (hist s), s\<lparr>hist := hist s @ [mk (f (hist s))]\<rparr>)"
  by (simp add: call_def Let_def)

lemma run_emit [simp]: "run_state (emit x) s = ((), s\<lparr>hist := hist s @ [x]\<rparr>)"
  by (simp add: emit_def)

section \<open>Weakest preconditions\<close>

definition wp :: "('s, 'a) state \<Rightarrow> ('a \<Rightarrow> 's \<Rightarrow> bool) \<Rightarrow> 's \<Rightarrow> bool" where
  "wp m Q s = (case run_state m s of (a, s') \<Rightarrow> Q a s')"

lemma wp_return [go_wp]: "wp (State_Monad.return a) Q s = Q a s"
  by (simp add: wp_def)

lemma wp_bind [go_wp]: "wp (State_Monad.bind m f) Q s = wp m (\<lambda>a. wp (f a) Q) s"
  by (simp add: wp_def split: prod.splits)

lemma wp_call [go_wp]:
  "wp (call mk f) Q s = Q (f (hist s)) (s\<lparr>hist := hist s @ [mk (f (hist s))]\<rparr>)"
  by (simp add: wp_def)

lemma wp_emit [go_wp]: "wp (emit x) Q s = Q () (s\<lparr>hist := hist s @ [x]\<rparr>)"
  by (simp add: wp_def)

lemma wp_get [go_wp]: "wp State_Monad.get Q s = Q s s"
  by (simp add: wp_def)

lemma wp_set [go_wp]: "wp (State_Monad.set t) Q s = Q () t"
  by (simp add: wp_def)

lemma wp_if [go_wp]: "wp (if b then m else n) Q s = (if b then wp m Q s else wp n Q s)"
  by simp

lemma wp_case_sum [go_wp]:
  "wp (case x of Inl a \<Rightarrow> f a | Inr b \<Rightarrow> g b) Q s =
     (case x of Inl a \<Rightarrow> wp (f a) Q s | Inr b \<Rightarrow> wp (g b) Q s)"
  by (simp split: sum.split)

lemma wp_case_option [go_wp]:
  "wp (case x of None \<Rightarrow> m | Some b \<Rightarrow> g b) Q s =
     (case x of None \<Rightarrow> wp m Q s | Some b \<Rightarrow> wp (g b) Q s)"
  by (simp split: option.split)

lemma wp_case_bool [go_wp]:
  "wp (case x of True \<Rightarrow> m | False \<Rightarrow> n) Q s = (case x of True \<Rightarrow> wp m Q s | False \<Rightarrow> wp n Q s)"
  by (simp split: bool.split)

lemma wp_case_prod [go_wp]:
  "wp (case x of (a, b) \<Rightarrow> f a b) Q s = (case x of (a, b) \<Rightarrow> wp (f a b) Q s)"
  by (simp split: prod.split)

lemma wp_let [go_wp]: "wp (let x = a in f x) Q s = (let x = a in wp (f x) Q s)"
  by simp

lemma wp_mono: "wp m Q s \<Longrightarrow> (\<And>a t. Q a t \<Longrightarrow> R a t) \<Longrightarrow> wp m R s"
  by (auto simp: wp_def split: prod.splits)

lemma wp_conj: "wp m Q s \<Longrightarrow> wp m R s \<Longrightarrow> wp m (\<lambda>a t. Q a t \<and> R a t) s"
  by (auto simp: wp_def split: prod.splits)

lemma wp_all: "(\<And>a t. Q a t) \<Longrightarrow> wp m Q s"
  by (auto simp: wp_def split: prod.splits)

lemma wp_run: "run_state m s = (a, t) \<Longrightarrow> wp m Q s \<Longrightarrow> Q a t"
  by (simp add: wp_def)

lemma wpI: "(\<And>a t. run_state m s = (a, t) \<Longrightarrow> Q a t) \<Longrightarrow> wp m Q s"
  by (simp add: wp_def split: prod.split)

text \<open>A property of every result a program can return.\<close>

definition yields :: "('a \<Rightarrow> bool) \<Rightarrow> ('s, 'a) state \<Rightarrow> bool" where
  "yields P m = (\<forall>s. P (fst (run_state m s)))"

lemma yields_return: "P a \<Longrightarrow> yields P (State_Monad.return a)"
  by (simp add: yields_def)

lemma yields_bind: "(\<And>a. yields P (f a)) \<Longrightarrow> yields P (State_Monad.bind m f)"
  by (simp add: yields_def case_prod_beta)

lemma yields_then: "yields P m \<Longrightarrow> (\<And>a. P a \<Longrightarrow> yields Q (f a)) \<Longrightarrow> yields Q (State_Monad.bind m f)"
  by (simp add: yields_def case_prod_beta)

lemma yields_if: "(b \<Longrightarrow> yields P m) \<Longrightarrow> (\<not> b \<Longrightarrow> yields P n) \<Longrightarrow> yields P (if b then m else n)"
  by simp

lemma yields_case_sum:
  "(\<And>a. x = Inl a \<Longrightarrow> yields P (f a)) \<Longrightarrow> (\<And>b. x = Inr b \<Longrightarrow> yields P (g b)) \<Longrightarrow>
   yields P (case x of Inl a \<Rightarrow> f a | Inr b \<Rightarrow> g b)"
  by (simp split: sum.split)

lemma yields_case_option:
  "(x = None \<Longrightarrow> yields P m) \<Longrightarrow> (\<And>b. x = Some b \<Longrightarrow> yields P (g b)) \<Longrightarrow>
   yields P (case x of None \<Rightarrow> m | Some b \<Rightarrow> g b)"
  by (simp split: option.split)

lemma yields_case_prod:
  "(\<And>a b. x = (a, b) \<Longrightarrow> yields P (f a b)) \<Longrightarrow> yields P (case x of (a, b) \<Rightarrow> f a b)"
  by (simp split: prod.split)

lemma yields_case_bool:
  "(x \<Longrightarrow> yields P m) \<Longrightarrow> (\<not> x \<Longrightarrow> yields P n) \<Longrightarrow> yields P (case x of True \<Rightarrow> m | False \<Rightarrow> n)"
  by (simp split: bool.split)

lemmas yields_rules = yields_return yields_bind yields_if yields_case_sum yields_case_option
  yields_case_prod yields_case_bool

lemma yields_any: "yields (\<lambda>_. True) m"
  by (simp add: yields_def)

lemma yields_wp: "yields P m \<Longrightarrow> wp m (\<lambda>a _. P a) s"
  by (simp add: yields_def wp_def case_prod_beta)

section \<open>Relations between the states before and after\<close>

definition obeys :: "('s \<Rightarrow> 's \<Rightarrow> bool) \<Rightarrow> ('s, 'a) state \<Rightarrow> bool" where
  "obeys R m = (\<forall>s. R s (snd (run_state m s)))"

lemma obeysI: "(\<And>s. wp m (\<lambda>_. R s) s) \<Longrightarrow> obeys R m"
  by (simp add: obeys_def wp_def case_prod_beta)

lemma obeysD: "obeys R m \<Longrightarrow> run_state m s = (a, t) \<Longrightarrow> R s t"
  by (auto simp: obeys_def dest: spec [of _ s])

lemma obeys_wp: "obeys R m \<Longrightarrow> wp m (\<lambda>_. R s) s"
  by (rule wpI) (rule obeysD)

text \<open>
  A relation that every step keeps is kept by a whole program when it is reflexive and
  transitive. The contract is stated once; the relations of the development interpret it.
\<close>

locale effect =
  fixes R :: "'s \<Rightarrow> 's \<Rightarrow> bool"
  assumes refl_eff: "R s s"
    and trans_eff: "R s t \<Longrightarrow> R t u \<Longrightarrow> R s u"
begin

lemma eff_return: "obeys R (State_Monad.return a)"
  by (simp add: obeys_def refl_eff)

lemma eff_bind:
  "obeys R m \<Longrightarrow> (\<And>a. obeys R (f a)) \<Longrightarrow> obeys R (State_Monad.bind m f)"
  by (auto simp: obeys_def case_prod_beta intro: trans_eff)

lemma eff_if: "(b \<Longrightarrow> obeys R m) \<Longrightarrow> (\<not> b \<Longrightarrow> obeys R n) \<Longrightarrow> obeys R (if b then m else n)"
  by simp

lemma eff_case_sum:
  "(\<And>a. x = Inl a \<Longrightarrow> obeys R (f a)) \<Longrightarrow> (\<And>b. x = Inr b \<Longrightarrow> obeys R (g b)) \<Longrightarrow>
   obeys R (case x of Inl a \<Rightarrow> f a | Inr b \<Rightarrow> g b)"
  by (simp split: sum.split)

lemma eff_case_option:
  "(x = None \<Longrightarrow> obeys R m) \<Longrightarrow> (\<And>b. x = Some b \<Longrightarrow> obeys R (g b)) \<Longrightarrow>
   obeys R (case x of None \<Rightarrow> m | Some b \<Rightarrow> g b)"
  by (simp split: option.split)

lemma eff_case_bool:
  "(x \<Longrightarrow> obeys R m) \<Longrightarrow> (\<not> x \<Longrightarrow> obeys R n) \<Longrightarrow> obeys R (case x of True \<Rightarrow> m | False \<Rightarrow> n)"
  by (simp split: bool.split)

lemma eff_case_prod:
  "(\<And>a b. x = (a, b) \<Longrightarrow> obeys R (f a b)) \<Longrightarrow> obeys R (case x of (a, b) \<Rightarrow> f a b)"
  by (simp split: prod.split)

lemma eff_let: "(\<And>x. x = a \<Longrightarrow> obeys R (f x)) \<Longrightarrow> obeys R (let x = a in f x)"
  by simp

lemma eff_get: "obeys R State_Monad.get"
  by (simp add: obeys_def refl_eff)

text \<open>Continuing from a state the relation has already reached.\<close>

lemma eff_wp: "obeys R m \<Longrightarrow> R s t \<Longrightarrow> wp m (\<lambda>_. R s) t"
  by (rule wpI) (auto dest: obeysD intro: trans_eff)

lemma eff_wp_bind:
  "wp m (\<lambda>_. R s) s \<Longrightarrow> (\<And>a. obeys R (f a)) \<Longrightarrow> wp (State_Monad.bind m f) (\<lambda>_. R s) s"
  unfolding wp_bind by (erule wp_mono) (rule eff_wp)

lemmas eff_rules = eff_return eff_bind eff_if eff_case_sum eff_case_option eff_case_bool eff_case_prod eff_let eff_get

end

text \<open>
  The history only grows, and every new entry satisfies \<open>P\<close>.
\<close>

definition emits_rel :: "('o \<Rightarrow> bool) \<Rightarrow> ('o, 'z) world_scheme \<Rightarrow> ('o, 'z) world_scheme \<Rightarrow> bool" where
  "emits_rel P s t = (\<exists>new. hist t = hist s @ new \<and> list_all P new)"

abbreviation emits :: "('o \<Rightarrow> bool) \<Rightarrow> ('o, 'z, 'a) prog \<Rightarrow> bool" where
  "emits P \<equiv> obeys (emits_rel P)"

interpretation emits: effect "emits_rel P"
proof unfold_locales
  show "emits_rel P s s" for s :: "('a, 'b) world_scheme"
    by (simp add: emits_rel_def)
  show "emits_rel P s u" if "emits_rel P s t" "emits_rel P t u" for s t u :: "('a, 'b) world_scheme"
    using that by (auto simp: emits_rel_def)
qed

lemma emits_call: "(\<And>r. P (mk r)) \<Longrightarrow> emits P (call mk f)"
  by (simp add: obeys_def emits_rel_def)

lemma emits_emit: "P x \<Longrightarrow> emits P (emit x)"
  by (simp add: obeys_def emits_rel_def)

lemmas emits_rules [go_effect] = emits.eff_rules emits_call emits_emit

lemma emits_mono: "emits P m \<Longrightarrow> (\<And>x. P x \<Longrightarrow> Q x) \<Longrightarrow> emits Q m"
  unfolding obeys_def emits_rel_def by (meson list.pred_mono_strong)

lemma emits_relI: "hist t = hist s @ new \<Longrightarrow> list_all P new \<Longrightarrow> emits_rel P s t"
  by (auto simp: emits_rel_def)

section \<open>Justified histories\<close>

text \<open>
  Every entry of the history is justified by what came before it: a safety property of the
  whole exchange with the outside world.
\<close>

definition justified :: "('o list \<Rightarrow> 'o \<Rightarrow> bool) \<Rightarrow> 'o list \<Rightarrow> bool" where
  "justified J h = (\<forall>pre x post. h = pre @ x # post \<longrightarrow> J pre x)"

lemma justified_Nil [simp]: "justified J []"
  by (simp add: justified_def)

fun just_from :: "('o list \<Rightarrow> 'o \<Rightarrow> bool) \<Rightarrow> 'o list \<Rightarrow> 'o list \<Rightarrow> bool" where
  "just_from J h [] = True"
| "just_from J h (x # xs) = (J h x \<and> just_from J (h @ [x]) xs)"

lemma just_from_iff:
  "just_from J h new \<longleftrightarrow> (\<forall>pre x post. new = pre @ x # post \<longrightarrow> J (h @ pre) x)"
proof (induction new arbitrary: h)
  case (Cons y new)
  show ?case
  proof
    assume "just_from J h (y # new)"
    with Cons.IH show "\<forall>pre x post. y # new = pre @ x # post \<longrightarrow> J (h @ pre) x"
      by (auto simp: Cons_eq_append_conv)
  next
    assume a: "\<forall>pre x post. y # new = pre @ x # post \<longrightarrow> J (h @ pre) x"
    have "J h y" using a [rule_format, of "[]"] by simp
    moreover have "J ((h @ [y]) @ pre) x" if "new = pre @ x # post" for pre x post
      using a [rule_format, of "y # pre"] that by simp
    ultimately show "just_from J h (y # new)"
      using Cons.IH [of "h @ [y]"] by (metis just_from.simps(2))
  qed
qed simp

lemma justified_append [simp]: "justified J (h @ new) \<longleftrightarrow> justified J h \<and> just_from J h new"
proof -
  have "just_from J k (h @ new) \<longleftrightarrow> just_from J k h \<and> just_from J (k @ h) new" for k
    by (induction h arbitrary: k) auto
  from this [of "[]"] show ?thesis
    using just_from_iff [of J "[]"] by (simp add: justified_def)
qed

lemma justified_single [simp]: "justified J [x] = J [] x"
  using justified_append [of J "[]" "[x]"] by (simp del: justified_append)

lemma justifiedD: "justified J h \<Longrightarrow> h = pre @ x # post \<Longrightarrow> J pre x"
  unfolding justified_def by blast

lemma justified_mem: "justified J h \<Longrightarrow> x \<in> set h \<Longrightarrow> \<exists>pre. prefix pre h \<and> J pre x"
  by (metis justifiedD prefixI split_list)

lemma justified_mono: "justified J h \<Longrightarrow> (\<And>pre x. J pre x \<Longrightarrow> K pre x) \<Longrightarrow> justified K h"
  by (auto simp: justified_def)

definition just_rel ::
  "('o list \<Rightarrow> 'o \<Rightarrow> bool) \<Rightarrow> ('o, 'z) world_scheme \<Rightarrow> ('o, 'z) world_scheme \<Rightarrow> bool" where
  "just_rel J s t = (justified J (hist s) \<longrightarrow> justified J (hist t))"

abbreviation justifies :: "('o list \<Rightarrow> 'o \<Rightarrow> bool) \<Rightarrow> ('o, 'z, 'a) prog \<Rightarrow> bool" where
  "justifies J \<equiv> obeys (just_rel J)"

interpretation justifies: effect "just_rel J"
  by unfold_locales (simp_all add: just_rel_def)

lemma justifies_call: "(\<And>h r. J h (mk r)) \<Longrightarrow> justifies J (call mk f)"
  by (simp add: obeys_def just_rel_def)

lemma justifies_emit: "(\<And>h. J h x) \<Longrightarrow> justifies J (emit x)"
  by (simp add: obeys_def just_rel_def)

lemmas justifies_rules = justifies.eff_rules justifies_call justifies_emit

lemma justifies_emits:
  assumes "emits P m" and "\<And>h x. P x \<Longrightarrow> J h x"
  shows "justifies J m"
proof (unfold obeys_def, intro allI)
  fix s
  obtain new where new: "hist (snd (run_state m s)) = hist s @ new" "list_all P new"
    using assms(1) by (auto simp: obeys_def emits_rel_def)
  have "just_from J h new" if "list_all P new" for h
    using that by (induction new arbitrary: h) (auto simp: assms(2))
  with new show "just_rel J s (snd (run_state m s))"
    by (simp add: just_rel_def)
qed

section \<open>Justification under a standing condition\<close>

text \<open>
  A condition on the history is stable when later entries cannot falsify it. Where it holds at the
  start, a program may use it to justify what it does.
\<close>

definition stable :: "('o list \<Rightarrow> bool) \<Rightarrow> bool" where
  "stable A = (\<forall>h x. A h \<longrightarrow> A (h @ [x]))"

lemma stableD: "stable A \<Longrightarrow> A h \<Longrightarrow> A (h @ new)"
proof (induction new rule: rev_induct)
  case (snoc x xs)
  then show ?case by (auto simp: stable_def simp flip: append_assoc)
qed simp

definition under_rel ::
  "('o list \<Rightarrow> bool) \<Rightarrow> ('o list \<Rightarrow> 'o \<Rightarrow> bool) \<Rightarrow> ('o, 'z) world_scheme \<Rightarrow> ('o, 'z) world_scheme \<Rightarrow> bool" where
  "under_rel A J s t = (A (hist s) \<and> justified J (hist s) \<longrightarrow> A (hist t) \<and> justified J (hist t))"

interpretation under: effect "under_rel A J"
  by unfold_locales (auto simp: under_rel_def)

lemma under_call: "stable A \<Longrightarrow> (\<And>h r. A h \<Longrightarrow> J h (mk r)) \<Longrightarrow> obeys (under_rel A J) (call mk f)"
  by (simp add: obeys_def under_rel_def stable_def)

lemma under_emit: "stable A \<Longrightarrow> (\<And>h. A h \<Longrightarrow> J h x) \<Longrightarrow> obeys (under_rel A J) (emit x)"
  by (simp add: obeys_def under_rel_def stable_def)

lemma under_emits:
  assumes "stable A" and "emits P m" and "\<And>h x. A h \<Longrightarrow> P x \<Longrightarrow> J h x"
  shows "obeys (under_rel A J) m"
proof (unfold obeys_def, intro allI)
  fix s
  obtain new where new: "hist (snd (run_state m s)) = hist s @ new" "list_all P new"
    using assms(2) by (auto simp: obeys_def emits_rel_def)
  have "A (h @ new) \<and> just_from J h new" if "list_all P new" "A h" for h
    using that
  proof (induction new arbitrary: h)
    case (Cons x xs)
    have "A (h @ [x])" using assms(1) Cons.prems by (simp add: stable_def)
    with Cons have "A ((h @ [x]) @ xs) \<and> just_from J (h @ [x]) xs" by (intro Cons.IH) auto
    with Cons.prems assms(3) show ?case by simp
  qed simp
  with new show "under_rel A J s (snd (run_state m s))"
    by (auto simp: under_rel_def)
qed

lemmas under_rules = under.eff_rules under_call under_emit

text \<open>The history only grows.\<close>

abbreviation grows :: "('o, 'z, 'a) prog \<Rightarrow> bool" where
  "grows \<equiv> emits (\<lambda>_. True)"

lemma emits_grows: "emits P m \<Longrightarrow> grows m"
  by (erule emits_mono) simp

lemma grows_stable: "grows m \<Longrightarrow> stable A \<Longrightarrow> A (hist s) \<Longrightarrow> wp m (\<lambda>_ t. A (hist t)) s"
  by (rule wpI) (auto dest!: obeysD simp: emits_rel_def stableD)

section \<open>Transition systems that run down\<close>

text \<open>
  A step relation with an invariant under which every step lowers a weight and some step is possible
  until the system has halted. Every run is then bounded by the weight, and one that goes on while
  it can halts.
\<close>

locale draining =
  fixes step :: "'s \<Rightarrow> 's \<Rightarrow> bool" and inv :: "'s \<Rightarrow> bool" and weight :: "'s \<Rightarrow> nat" and halted :: "'s \<Rightarrow> bool"
  assumes keeps: "inv s \<Longrightarrow> step s t \<Longrightarrow> inv t"
    and falls: "inv s \<Longrightarrow> step s t \<Longrightarrow> weight t < weight s"
    and moves: "inv s \<Longrightarrow> \<not> halted s \<Longrightarrow> \<exists>t. step s t"
begin

lemma runs_keep: "(step ^^ n) s t \<Longrightarrow> inv s \<Longrightarrow> inv t"
  by (induction n arbitrary: t) (auto intro: keeps)

lemma runs_bounded: "(step ^^ n) s t \<Longrightarrow> inv s \<Longrightarrow> n + weight t \<le> weight s"
proof (induction n arbitrary: t)
  case (Suc n)
  then obtain u where u: "(step ^^ n) s u" "step u t" by auto
  with Suc.prems have "inv u" by (blast intro: runs_keep)
  with u have "weight t < weight u" by (blast intro: falls)
  with Suc.IH [OF u(1) Suc.prems(2)] show ?case by simp
qed simp

lemma runs_halt: "inv s \<Longrightarrow> \<exists>n t. (step ^^ n) s t \<and> halted t"
proof (induction "weight s" arbitrary: s rule: less_induct)
  case less
  show ?case
  proof (cases "halted s")
    case True
    then have "(step ^^ 0) s s \<and> halted s" by simp
    then show ?thesis by blast
  next
    case False
    then obtain u where u: "step s u" using moves less.prems by blast
    then obtain n t where "(step ^^ n) u t" "halted t"
      using less.hyps [of u] less.prems keeps falls by blast
    with u have "(step ^^ Suc n) s t \<and> halted t" by (metis relpowp_Suc_I2)
    then show ?thesis by blast
  qed
qed

lemma no_endless_run: "inv (f 0) \<Longrightarrow> \<exists>i. \<not> step (f i) (f (Suc i))"
proof (rule ccontr)
  assume "inv (f 0)" and "\<nexists>i. \<not> step (f i) (f (Suc i))"
  then have "(step ^^ n) (f 0) (f n)" for n by (induction n) auto
  from runs_bounded [OF this \<open>inv (f 0)\<close>, of "Suc (weight (f 0))"] show False by simp
qed

end

end
