(* ===== verification/Go_Strings.thy ===== *)
theory Go_Strings
  imports Go_Prelude
begin

text \<open>
  The parts of Go's \<open>strings\<close>, \<open>unicode/utf8\<close> and \<open>strconv\<close> the program uses. A Go string
  is its bytes (\<open>string\<close>, one \<open>char\<close> per byte). Ranging over a string decodes UTF-8, an invalid
  byte giving U+FFFD. Case mapping of ASCII is written out; the Unicode tables
  beyond ASCII are an argument (\<open>u\<close>), so every result below holds for any such table.
\<close>

section \<open>UTF-8\<close>

type_synonym rune = nat

definition rune_error :: rune where
  "rune_error = 0xFFFD"

definition cont :: "nat \<Rightarrow> bool" where
  "cont b = (0x80 \<le> b \<and> b \<le> 0xBF)"

text \<open>
  The rune that starts at byte \<open>b\<close> (not ASCII) followed by \<open>bs\<close>, and how many bytes of \<open>bs\<close>
  it takes; \<open>None\<close> when the encoding is invalid (overlong forms and surrogates included).
\<close>

definition decode_multi :: "nat \<Rightarrow> nat list \<Rightarrow> (rune \<times> nat) option" where
  "decode_multi b bs =
     (if 0xC2 \<le> b \<and> b \<le> 0xDF then
        (case bs of c1 # _ \<Rightarrow>
           if cont c1 then Some ((b - 0xC0) * 64 + (c1 - 0x80), 1) else None
         | [] \<Rightarrow> None)
      else if 0xE0 \<le> b \<and> b \<le> 0xEF then
        (case bs of c1 # c2 # _ \<Rightarrow>
           if (if b = 0xE0 then 0xA0 \<le> c1 \<and> c1 \<le> 0xBF
               else if b = 0xED then 0x80 \<le> c1 \<and> c1 \<le> 0x9F else cont c1) \<and> cont c2
           then Some ((b - 0xE0) * 4096 + (c1 - 0x80) * 64 + (c2 - 0x80), 2) else None
         | _ \<Rightarrow> None)
      else if 0xF0 \<le> b \<and> b \<le> 0xF4 then
        (case bs of c1 # c2 # c3 # _ \<Rightarrow>
           if (if b = 0xF0 then 0x90 \<le> c1 \<and> c1 \<le> 0xBF
               else if b = 0xF4 then 0x80 \<le> c1 \<and> c1 \<le> 0x8F else cont c1) \<and> cont c2 \<and> cont c3
           then Some ((b - 0xF0) * 262144 + (c1 - 0x80) * 4096 + (c2 - 0x80) * 64 + (c3 - 0x80), 3)
           else None
         | _ \<Rightarrow> None)
      else None)"

fun decode_bytes :: "nat list \<Rightarrow> rune list" where
  "decode_bytes [] = []"
| "decode_bytes (b # bs) =
     (if b < 0x80 then b # decode_bytes bs
      else (case decode_multi b bs of
              None \<Rightarrow> rune_error # decode_bytes bs
            | Some (r, n) \<Rightarrow> r # decode_bytes (drop n bs)))"

text \<open>\<open>for _, r := range s\<close>\<close>

definition runes :: "string \<Rightarrow> rune list" where
  "runes s = decode_bytes (map of_char s)"

text \<open>\<open>utf8.AppendRune\<close>\<close>

definition encode_rune :: "rune \<Rightarrow> nat list" where
  "encode_rune r =
     (if r < 0x80 then [r]
      else if r < 0x800 then [0xC0 + r div 64, 0x80 + r mod 64]
      else if 0x10FFFF < r \<or> (0xD800 \<le> r \<and> r \<le> 0xDFFF) then [0xEF, 0xBF, 0xBD]
      else if r < 0x10000 then [0xE0 + r div 4096, 0x80 + r div 64 mod 64, 0x80 + r mod 64]
      else [0xF0 + r div 262144, 0x80 + r div 4096 mod 64, 0x80 + r div 64 mod 64, 0x80 + r mod 64])"

definition string_of_runes :: "rune list \<Rightarrow> string" where
  "string_of_runes rs = map char_of (concat (map encode_rune rs))"

section \<open>Case\<close>

definition toLowerRune :: "(rune \<Rightarrow> rune) \<Rightarrow> rune \<Rightarrow> rune" where
  "toLowerRune u r = (if 65 \<le> r \<and> r \<le> 90 then r + 32 else if r < 0x80 then r else u r)"

text \<open>\<open>strings.ToLower\<close>\<close>

definition ToLower :: "(rune \<Rightarrow> rune) \<Rightarrow> string \<Rightarrow> string" where
  "ToLower u s = string_of_runes (map (toLowerRune u) (runes s))"

text \<open>\<open>strings.ToUpper\<close>, with the Unicode upper-case table beyond ASCII.\<close>

definition toUpperRune :: "(rune \<Rightarrow> rune) \<Rightarrow> rune \<Rightarrow> rune" where
  "toUpperRune u r = (if 97 \<le> r \<and> r \<le> 122 then r - 32 else if r < 0x80 then r else u r)"

definition ToUpper :: "(rune \<Rightarrow> rune) \<Rightarrow> string \<Rightarrow> string" where
  "ToUpper u s = string_of_runes (map (toUpperRune u) (runes s))"

text \<open>
  \<open>strings.EqualFold\<close>: rune by rune under simple case folding, where \<open>uf\<close> maps a
  non-ASCII rune to the representative of its folding class.
\<close>

definition EqualFold :: "(rune \<Rightarrow> rune) \<Rightarrow> string \<Rightarrow> string \<Rightarrow> bool" where
  "EqualFold uf s t = (map (toLowerRune uf) (runes s) = map (toLowerRune uf) (runes t))"

definition ascii :: "string \<Rightarrow> bool" where
  "ascii s = list_all (\<lambda>c. (of_char c :: nat) < 0x80) s"

definition lower_char :: "char \<Rightarrow> char" where
  "lower_char c = (if 65 \<le> (of_char c :: nat) \<and> (of_char c :: nat) \<le> 90 then char_of (of_char c + 32 :: nat) else c)"

section \<open>Searching and splitting\<close>

text \<open>\<open>strings.HasPrefix\<close>\<close>

definition HasPrefix :: "string \<Rightarrow> string \<Rightarrow> bool" where
  "HasPrefix s p = (take (length p) s = p)"

text \<open>\<open>strings.Cut\<close> at a one-byte separator: before, after, found.\<close>

definition Cut :: "string \<Rightarrow> char \<Rightarrow> string \<times> string \<times> bool" where
  "Cut s c = (takeWhile (\<lambda>x. x \<noteq> c) s, drop (Suc (length (takeWhile (\<lambda>x. x \<noteq> c) s))) s, c \<in> set s)"

definition CutBefore :: "string \<Rightarrow> char \<Rightarrow> string" where
  "CutBefore s c = fst (Cut s c)"

text \<open>\<open>strings.Split\<close> at a one-byte separator.\<close>

fun Split :: "string \<Rightarrow> char \<Rightarrow> string list" where
  "Split [] c = [[]]"
| "Split (x # xs) c =
     (if x = c then [] # Split xs c
      else (case Split xs c of [] \<Rightarrow> [[x]] | w # ws \<Rightarrow> (x # w) # ws))"

fun Join :: "string list \<Rightarrow> char \<Rightarrow> string" where
  "Join [] c = []"
| "Join [w] c = w"
| "Join (w # ws) c = w @ c # Join ws c"

text \<open>\<open>strings.ReplaceAll\<close> of a one-byte string.\<close>

definition ReplaceAll :: "string \<Rightarrow> char \<Rightarrow> string \<Rightarrow> string" where
  "ReplaceAll s old new = concat (map (\<lambda>x. if x = old then new else [x]) s)"

text \<open>\<open>strings.TrimRight\<close> with a one-byte cutset.\<close>

definition TrimRight :: "string \<Rightarrow> char \<Rightarrow> string" where
  "TrimRight s c = rev (dropWhile (\<lambda>x. x = c) (rev s))"

text \<open>
  \<open>strings.TrimSpace\<close>: the string cut into runes with their bytes, white space dropped at both
  ends; \<open>sp\<close> tells white space beyond Latin-1. A valid encoding starts at a byte that continues no other, so
  reading from the end finds the same runes.
\<close>

fun rune_chunks :: "nat list \<Rightarrow> (rune \<times> nat list) list" where
  "rune_chunks [] = []"
| "rune_chunks (b # bs) =
     (if b < 0x80 then (b, [b]) # rune_chunks bs
      else (case decode_multi b bs of
              None \<Rightarrow> (rune_error, [b]) # rune_chunks bs
            | Some (r, n) \<Rightarrow> (r, b # take n bs) # rune_chunks (drop n bs)))"

definition isSpace :: "(rune \<Rightarrow> bool) \<Rightarrow> rune \<Rightarrow> bool" where
  "isSpace sp r = (r \<in> {9, 10, 11, 12, 13, 32, 0x85, 0xA0} \<or> (0xFF < r \<and> sp r))"

definition TrimSpace :: "(rune \<Rightarrow> bool) \<Rightarrow> string \<Rightarrow> string" where
  "TrimSpace sp s =
     (let space = (\<lambda>c. isSpace sp (fst c));
          trimmed = rev (dropWhile space (rev (dropWhile space (rune_chunks (map of_char s)))))
      in map char_of (concat (map snd trimmed)))"

text \<open>\<open>strconv.Itoa\<close> on a non-negative number.\<close>

fun itoa :: "nat \<Rightarrow> string" where
  "itoa n = (if n < 10 then [char_of (48 + n)] else itoa (n div 10) @ [char_of (48 + n mod 10)])"

declare itoa.simps [simp del]

text \<open>\<open>strconv.Itoa\<close>\<close>

definition Itoa :: "int \<Rightarrow> string" where
  "Itoa i = (if i < 0 then CHR ''-'' # itoa (nat (- i)) else itoa (nat i))"

text \<open>\<open>net.JoinHostPort\<close>\<close>

definition JoinHostPort :: "string \<Rightarrow> string \<Rightarrow> string" where
  "JoinHostPort host port =
     (if CHR '':'' \<in> set host then ''['' @ host @ '']:'' @ port else host @ '':'' @ port)"

section \<open>Lemmas\<close>

lemma decode_bytes_ascii: "list_all (\<lambda>b. b < 0x80) bs \<Longrightarrow> decode_bytes bs = bs"
  by (induction bs) auto

lemma runes_ascii: "ascii s \<Longrightarrow> runes s = map of_char s"
  by (simp add: runes_def ascii_def decode_bytes_ascii list.pred_map comp_def)

lemma string_of_runes_ascii: "list_all (\<lambda>r. r < 0x80) rs \<Longrightarrow> string_of_runes rs = map char_of rs"
  by (induction rs) (auto simp: string_of_runes_def encode_rune_def)

lemma toLowerRune_ascii: "r < 0x80 \<Longrightarrow> toLowerRune u r < 0x80"
  by (simp add: toLowerRune_def)

lemma ToLower_ascii: "ascii s \<Longrightarrow> ToLower u s = map lower_char s"
proof -
  assume a: "ascii s"
  then have "list_all (\<lambda>r. r < 0x80) (map (toLowerRune u) (runes s))"
    by (auto simp: runes_ascii ascii_def list_all_iff intro: toLowerRune_ascii)
  then have "ToLower u s = map (char_of \<circ> toLowerRune u \<circ> of_char) s"
    using a by (simp add: ToLower_def string_of_runes_ascii runes_ascii)
  also have "\<dots> = map lower_char s"
    using a by (auto simp: ascii_def list_all_iff lower_char_def toLowerRune_def)
  finally show ?thesis .
qed

lemma EqualFold_refl [simp]: "EqualFold uf s s"
  by (simp add: EqualFold_def)

lemma EqualFold_sym: "EqualFold uf s t = EqualFold uf t s"
  by (auto simp: EqualFold_def)

lemma EqualFold_trans: "EqualFold uf s t \<Longrightarrow> EqualFold uf t r \<Longrightarrow> EqualFold uf s r"
  by (simp add: EqualFold_def)

lemma CutBefore_eq: "CutBefore s c = takeWhile (\<lambda>x. x \<noteq> c) s"
  by (simp add: CutBefore_def Cut_def)

lemma CutBefore_not_mem [simp]: "c \<notin> set (CutBefore s c)"
  by (auto simp: CutBefore_eq dest: set_takeWhileD)

lemma Cut_found: "c \<notin> set p \<Longrightarrow> Cut (p @ c # q) c = (p, q, True)"
  by (simp add: Cut_def takeWhile_append)

lemma Cut_missing: "c \<notin> set s \<Longrightarrow> Cut s c = (s, [], False)"
proof -
  assume a: "c \<notin> set s"
  then have "\<forall>x \<in> set s. x \<noteq> c" by blast
  then have tw: "takeWhile (\<lambda>x. x \<noteq> c) s = s"
    by (simp only: takeWhile_eq_all_conv)
  show ?thesis using a unfolding Cut_def tw by simp
qed

lemma Cut_found_rev: "Cut s c = (p, q, True) \<Longrightarrow> s = p @ c # q \<and> c \<notin> set p"
proof -
  assume a: "Cut s c = (p, q, True)"
  then obtain p' q' where s: "s = p' @ c # q'" "c \<notin> set p'"
    by (auto simp: Cut_def dest: split_list_first)
  with a show ?thesis by (simp add: Cut_found)
qed

lemma Split_nonempty [simp]: "Split s c \<noteq> []"
  by (induction s) (auto split: list.splits)

lemma Split_no_sep: "w \<in> set (Split s c) \<Longrightarrow> c \<notin> set w"
  by (induction s arbitrary: w) (auto split: if_splits list.splits)

lemma Split_no_sep_single: "c \<notin> set w \<Longrightarrow> Split w c = [w]"
  by (induction w) auto

lemma Split_append: "c \<notin> set w \<Longrightarrow> Split (w @ c # s) c = w # Split s c"
  by (induction w) auto

lemma Join_Cons: "ws \<noteq> [] \<Longrightarrow> Join (w # ws) c = w @ c # Join ws c"
  by (cases ws) auto

lemma Join_Split: "Join (Split s c) c = s"
proof (induction s)
  case (Cons x s)
  obtain w ws where "Split s c = w # ws"
    by (cases "Split s c") auto
  with Cons show ?case by (cases ws) auto
qed simp

lemma Split_Join: "ws \<noteq> [] \<Longrightarrow> (\<And>w. w \<in> set ws \<Longrightarrow> c \<notin> set w) \<Longrightarrow> Split (Join ws c) c = ws"
proof (induction ws)
  case (Cons w ws)
  then show ?case
    by (cases "ws = []") (auto simp: Split_no_sep_single Split_append Join_Cons)
qed simp

lemma set_TrimRight: "set (TrimRight s c) \<subseteq> set s"
  using set_dropWhileD by (fastforce simp: TrimRight_def)

lemma TrimRight_last: "TrimRight s c \<noteq> [] \<Longrightarrow> last (TrimRight s c) \<noteq> c"
  by (metis (mono_tags) TrimRight_def hd_dropWhile last_rev rev_is_Nil_conv rev_rev_ident)

lemma TrimRight_append: "\<exists>t. s = TrimRight s c @ t \<and> set t \<subseteq> {c}"
proof -
  have "rev s = takeWhile (\<lambda>x. x = c) (rev s) @ dropWhile (\<lambda>x. x = c) (rev s)"
    by simp
  then have "s = rev (dropWhile (\<lambda>x. x = c) (rev s)) @ rev (takeWhile (\<lambda>x. x = c) (rev s))"
    by (metis rev_append rev_rev_ident)
  moreover have "set (rev (takeWhile (\<lambda>x. x = c) (rev s))) \<subseteq> {c}"
    by (auto dest: set_takeWhileD)
  ultimately show ?thesis
    unfolding TrimRight_def by blast
qed

lemma length_TrimRight: "length (TrimRight s c) \<le> length s"
  using length_dropWhile_le [of "\<lambda>x. x = c" "rev s"] by (simp add: TrimRight_def)

lemma hd_TrimRight: "TrimRight s c \<noteq> [] \<Longrightarrow> hd (TrimRight s c) = hd s"
  by (metis TrimRight_append hd_append)

lemma TrimRight_id: "s = [] \<or> last s \<noteq> c \<Longrightarrow> TrimRight s c = s"
  by (cases s rule: rev_cases) (auto simp: TrimRight_def)

lemma itoa_nonempty [simp]: "itoa n \<noteq> []"
  by (subst itoa.simps) simp

lemma itoa_digits: "c \<in> set (itoa n) \<Longrightarrow> 48 \<le> (of_char c :: nat) \<and> (of_char c :: nat) \<le> 57"
proof (induction n rule: itoa.induct)
  case (1 n)
  have d: "48 \<le> (48 + k) mod (256::nat) \<and> (48 + k) mod (256::nat) \<le> 57" if "k < 10" for k
    using that by simp
  show ?case
  proof (cases "n < 10")
    case True
    with "1.prems" d [of n] show ?thesis by (subst (asm) itoa.simps) auto
  next
    case False
    from "1.prems" have "c \<in> set (itoa (n div 10)) \<or> c = char_of (48 + n mod 10)"
      by (subst (asm) itoa.simps) (use False in auto)
    with "1.IH" [OF False] d [of "n mod 10"] show ?thesis by auto
  qed
qed

end
