(* ===== verification/Go_Time.thy ===== *)
theory Go_Time
  imports Go_Strings
begin

text \<open>
  The RFC 3339 codec of Go's \<open>time\<close> package, as far as the program uses it:
  \<open>t.UTC().Format(time.RFC3339)\<close> and \<open>time.Parse(time.RFC3339, value)\<close>. \<open>time.Parse\<close> first
  tries \<open>parseRFC3339\<close>, modelled here in full, and otherwise falls back to its generic
  layout parser, which is an argument (\<open>lenient\<close>). Instants are nanoseconds since the Unix epoch
  and lie in the years 0 to 9999.
\<close>

section \<open>The proleptic Gregorian calendar\<close>

definition leap :: "nat \<Rightarrow> bool" where
  "leap y = (y mod 4 = 0 \<and> (y mod 100 \<noteq> 0 \<or> y mod 400 = 0))"

definition year_len :: "nat \<Rightarrow> nat" where
  "year_len y = (if leap y then 366 else 365)"

definition month_lens :: "nat \<Rightarrow> nat list" where
  "month_lens y = [31, if leap y then 29 else 28, 31, 30, 31, 30, 31, 31, 30, 31, 30, 31]"

text \<open>\<open>daysIn\<close>\<close>

definition daysIn :: "nat \<Rightarrow> nat \<Rightarrow> nat" where
  "daysIn m y = (if 1 \<le> m \<and> m \<le> 12 then month_lens y ! (m - 1) else 0)"

text \<open>Days from 1 January of year 0 to 1 January of year \<open>y\<close>.\<close>

definition days_before_year :: "nat \<Rightarrow> nat" where
  "days_before_year y = 365 * y + ((y + 3) div 4 + (y + 399) div 400 - (y + 99) div 100)"

definition days_before_month :: "nat \<Rightarrow> nat \<Rightarrow> nat" where
  "days_before_month y m = sum_list (take (m - 1) (month_lens y))"

text \<open>The day number of a date, counted from 1 January of year 0.\<close>

definition day_number :: "nat \<Rightarrow> nat \<Rightarrow> nat \<Rightarrow> nat" where
  "day_number y m d = days_before_year y + days_before_month y m + (d - 1)"

text \<open>1 January 1970, counted from 1 January of year 0.\<close>

definition epoch_day :: nat where
  "epoch_day = 719528"

function find_year :: "nat \<Rightarrow> nat \<Rightarrow> nat \<times> nat" where
  "find_year y d = (if d < year_len y then (y, d) else find_year (Suc y) (d - year_len y))"
  by pat_completeness auto
termination
  by (relation "measure snd") (auto simp: year_len_def split: if_splits)

declare find_year.simps [simp del]

fun find_month :: "nat list \<Rightarrow> nat \<Rightarrow> nat \<Rightarrow> nat \<times> nat" where
  "find_month [] m d = (m, Suc d)"
| "find_month (l # ls) m d = (if d < l then (m, Suc d) else find_month ls (Suc m) (d - l))"

text \<open>\<open>Time.Date\<close>: year, month and day of a day number; whole 400-year cycles first.\<close>

definition civil :: "nat \<Rightarrow> nat \<times> nat \<times> nat" where
  "civil n =
     (let (y, yd) = find_year (400 * (n div 146097)) (n mod 146097);
          (m, d) = find_month (month_lens y) 1 yd
      in (y, m, d))"

section \<open>Formatting and parsing\<close>

definition dig :: "nat \<Rightarrow> char" where
  "dig k = char_of (48 + k)"

definition pad2 :: "nat \<Rightarrow> string" where
  "pad2 n = (if n < 100 then [dig (n div 10), dig (n mod 10)] else itoa n)"

definition pad4 :: "nat \<Rightarrow> string" where
  "pad4 n = (if n < 10000 then [dig (n div 1000), dig (n div 100 mod 10), dig (n div 10 mod 10), dig (n mod 10)]
             else itoa n)"

text \<open>\<open>t.UTC().Format(time.RFC3339)\<close>\<close>

definition time_Format :: "time \<Rightarrow> string" where
  "time_Format t =
     (let secs = nat (t div Second + int epoch_day * 86400);
          (y, m, d) = civil (secs div 86400);
          sod = secs mod 86400
      in pad4 y @ ''-'' @ pad2 m @ ''-'' @ pad2 d @ ''T'' @
         pad2 (sod div 3600) @ '':'' @ pad2 (sod div 60 mod 60) @ '':'' @ pad2 (sod mod 60) @ ''Z'')"

text \<open>\<open>t.Truncate(time.Second)\<close>\<close>

definition time_Truncate :: "time \<Rightarrow> time" where
  "time_Truncate t = t - t mod Second"

definition isDigit :: "char \<Rightarrow> bool" where
  "isDigit c = (48 \<le> (of_char c :: nat) \<and> (of_char c :: nat) \<le> 57)"

definition atoi :: "string \<Rightarrow> nat" where
  "atoi s = foldl (\<lambda>x c. x * 10 + (of_char c - 48)) 0 s"

definition parseUint :: "string \<Rightarrow> nat \<Rightarrow> nat \<Rightarrow> nat option" where
  "parseUint s lo hi =
     (if list_all isDigit s \<and> lo \<le> atoi s \<and> atoi s \<le> hi then Some (atoi s) else None)"

definition slice :: "string \<Rightarrow> nat \<Rightarrow> nat \<Rightarrow> string" where
  "slice s i j = take (j - i) (drop i s)"

text \<open>The zone suffix: seconds east of UTC.\<close>

definition parse_zone :: "string \<Rightarrow> int option" where
  "parse_zone z =
     (if z = ''Z'' then Some 0
      else if length z \<noteq> 6 then None
      else do {
        hr \<leftarrow> parseUint (slice z 1 3) 0 23;
        mm \<leftarrow> parseUint (slice z 4 6) 0 59;
        (if (z ! 0 = CHR ''-'' \<or> z ! 0 = CHR ''+'') \<and> z ! 3 = CHR '':''
         then Some ((if z ! 0 = CHR ''-'' then - 1 else 1) * int ((hr * 60 + mm) * 60))
         else None)
      })"

text \<open>The fractional second: nanoseconds and what follows.\<close>

definition parse_frac :: "string \<Rightarrow> nat \<times> string" where
  "parse_frac z =
     (case z of
        c # c1 # _ \<Rightarrow>
          if c = CHR ''.'' \<and> isDigit c1
          then let ds = takeWhile isDigit (tl z); used = take 9 ds
               in (atoi used * 10 ^ (9 - length used), drop (Suc (length ds)) z)
          else (0, z)
      | _ \<Rightarrow> (0, z))"

text \<open>\<open>parseRFC3339\<close>\<close>

definition parseRFC3339 :: "string \<Rightarrow> time option" where
  "parseRFC3339 s =
     (if length s < 19 then None
      else do {
        year \<leftarrow> parseUint (slice s 0 4) 0 9999;
        month \<leftarrow> parseUint (slice s 5 7) 1 12;
        day \<leftarrow> parseUint (slice s 8 10) 1 (daysIn month year);
        hour \<leftarrow> parseUint (slice s 11 13) 0 23;
        minute \<leftarrow> parseUint (slice s 14 16) 0 59;
        sec \<leftarrow> parseUint (slice s 17 19) 0 59;
        (if s ! 4 = CHR ''-'' \<and> s ! 7 = CHR ''-'' \<and> s ! 10 = CHR ''T'' \<and>
            s ! 13 = CHR '':'' \<and> s ! 16 = CHR '':''
         then (case parse_frac (drop 19 s) of
                 (nsec, z) \<Rightarrow>
                   (case parse_zone z of
                      None \<Rightarrow> None
                    | Some off \<Rightarrow>
                        Some (((int (day_number year month day) - int epoch_day) * 86400
                               + int (hour * 3600 + minute * 60 + sec) - off) * Second + int nsec)))
         else None)
      })"

text \<open>\<open>time.Parse(time.RFC3339, value)\<close>\<close>

definition time_Parse :: "(string \<Rightarrow> time option) \<Rightarrow> string \<Rightarrow> time option" where
  "time_Parse lenient s =
     (case parseRFC3339 s of Some t \<Rightarrow> Some t | None \<Rightarrow> lenient s)"

section \<open>The calendar is a bijection\<close>

lemma year_len_pos [simp]: "0 < year_len y"
  by (simp add: year_len_def)

lemma sum_month_lens: "sum_list (month_lens y) = year_len y"
  by (simp add: month_lens_def year_len_def)

lemma leaps_le: "(y + 99) div 100 \<le> (y + 3) div (4::nat)"
proof -
  have "(y + 99) div 100 * 100 \<le> y + 99" by (rule div_times_less_eq_dividend)
  then have "(y + 99) div 100 * 4 \<le> y + 3" by arith
  then show ?thesis by (simp add: less_eq_div_iff_mult_less_eq)
qed

lemma days_before_year_Suc: "days_before_year (Suc y) = days_before_year y + year_len y"
proof -
  have a: "(y + 4) div 4 = (y + 3) div 4 + (if y mod 4 = 0 then 1 else 0)"
    using div_Suc [of "y + 3" 4] by (simp add: add.commute)
  have b: "(y + 400) div 400 = (y + 399) div 400 + (if y mod 400 = 0 then 1 else 0)"
    using div_Suc [of "y + 399" 400] by (simp add: add.commute)
  have c: "(y + 100) div 100 = (y + 99) div 100 + (if y mod 100 = 0 then 1 else 0)"
    using div_Suc [of "y + 99" 100] by (simp add: add.commute)
  have e: "y mod 400 = 0 \<Longrightarrow> y mod 100 = 0" "y mod 100 = 0 \<Longrightarrow> y mod 4 = 0"
    by (auto simp: mod_eq_0_iff_dvd intro: dvd_trans [of 100 400] dvd_trans [of 4 100])
  have s: "Suc y + 3 = y + 4" "Suc y + 399 = y + 400" "Suc y + 99 = y + 100" by simp_all
  obtain k where k: "(y + 3) div 4 = (y + 99) div 100 + k"
    using leaps_le le_Suc_ex by blast
  show ?thesis
    unfolding days_before_year_def year_len_def leap_def s a b c k
    using e by auto
qed

lemma days_before_year_400: "days_before_year (y + 400 * k) = days_before_year y + 146097 * k"
proof (induction k)
  case (Suc k)
  have "(z + 400 + 3) div 4 = (z + 3) div 4 + 100" "(z + 400 + 399) div 400 = (z + 399) div 400 + 1"
    "(z + 400 + 99) div 100 = (z + 99) div 100 + 4" for z :: nat by linarith+
  then have "days_before_year (z + 400) = days_before_year z + 146097" for z
    unfolding days_before_year_def using leaps_le [of z] by (simp add: add.commute)
  from this [of "y + 400 * k"] Suc show ?case by (simp add: algebra_simps)
qed simp

lemma find_year_correct:
  "find_year y d = (y', d') \<Longrightarrow>
     d' < year_len y' \<and> y \<le> y' \<and> days_before_year y' + d' = days_before_year y + d"
proof (induction y d rule: find_year.induct)
  case (1 y d)
  show ?case
  proof (cases "d < year_len y")
    case True
    with "1.prems" show ?thesis by (simp add: find_year.simps [of y d])
  next
    case False
    with "1" show ?thesis
      by (simp add: find_year.simps [of y d] days_before_year_Suc)
  qed
qed

lemma find_month_correct:
  assumes "find_month ls m d = (m', d')" and "d < sum_list ls"
  shows "m \<le> m' \<and> m' < m + length ls \<and> 1 \<le> d' \<and> d' \<le> ls ! (m' - m) \<and>
         sum_list (take (m' - m) ls) + (d' - 1) = d"
  using assms
proof (induction ls m d rule: find_month.induct)
  case (2 l ls m d)
  show ?case
  proof (cases "d < l")
    case True
    with 2 show ?thesis by auto
  next
    case False
    with "2.prems" have "find_month ls (Suc m) (d - l) = (m', d')" "d - l < sum_list ls" by auto
    from "2.IH" [OF False this]
    have ih: "Suc m \<le> m' \<and> m' < Suc m + length ls \<and> 1 \<le> d' \<and> d' \<le> ls ! (m' - Suc m) \<and>
         sum_list (take (m' - Suc m) ls) + (d' - 1) = d - l" .
    then have "m' - m = Suc (m' - Suc m)" by linarith
    with ih False show ?thesis by auto
  qed
qed simp

lemma length_month_lens [simp]: "length (month_lens y) = 12"
  by (simp add: month_lens_def)

lemma month_lens_le: "k < 12 \<Longrightarrow> month_lens y ! k \<le> 31"
  by (auto simp: month_lens_def nth_Cons' split: if_splits)

text \<open>A day number is recovered from its year, month and day.\<close>

lemma civil_correct:
  assumes "civil n = (y, m, d)"
  shows "1 \<le> m \<and> m \<le> 12 \<and> 1 \<le> d \<and> d \<le> daysIn m y \<and> day_number y m d = n"
proof -
  obtain yd where fy: "find_year (400 * (n div 146097)) (n mod 146097) = (y, yd)"
    and fm: "find_month (month_lens y) 1 yd = (m, d)"
    using assms by (auto simp: civil_def Let_def split: prod.splits)
  from find_year_correct [OF fy] have yd: "yd < year_len y"
    and s: "days_before_year y + yd = days_before_year (400 * (n div 146097)) + n mod 146097"
    by auto
  have "days_before_year (400 * (n div 146097)) = 146097 * (n div 146097)"
    using days_before_year_400 [of 0 "n div 146097"] by (simp add: days_before_year_def [of 0])
  with s have n: "days_before_year y + yd = n" by simp
  from find_month_correct [OF fm] yd have
    "1 \<le> m" "m < 1 + 12" "1 \<le> d" "d \<le> month_lens y ! (m - 1)"
    "sum_list (take (m - 1) (month_lens y)) + (d - 1) = yd"
    by (auto simp: sum_month_lens)
  with n show ?thesis
    by (auto simp: daysIn_def day_number_def days_before_month_def)
qed

lemma civil_year_le: "n < 3652425 \<Longrightarrow> civil n = (y, m, d) \<Longrightarrow> y < 10000"
proof (rule ccontr)
  assume n: "n < 3652425" and c: "civil n = (y, m, d)" and y: "\<not> y < 10000"
  have "days_before_year a \<le> days_before_year (a + k)" for a k
    by (induction k) (simp_all add: days_before_year_Suc)
  from this [of 10000 "y - 10000"] y have "days_before_year 10000 \<le> days_before_year y"
    by simp
  moreover have "days_before_year y \<le> n"
    using civil_correct [OF c] by (simp add: day_number_def)
  ultimately show False using n by (simp add: days_before_year_def)
qed

section \<open>Round trip\<close>

lemma of_char_dig: "k < 10 \<Longrightarrow> of_char (dig k) = (48 + k :: nat)"
  by (simp add: dig_def)

lemma isDigit_dig: "k < 10 \<Longrightarrow> isDigit (dig k)"
  by (simp add: isDigit_def of_char_dig)

lemma parseUint_pad2: "n < 100 \<Longrightarrow> lo \<le> n \<Longrightarrow> n \<le> hi \<Longrightarrow> parseUint [dig (n div 10), dig (n mod 10)] lo hi = Some n"
  by (simp add: parseUint_def atoi_def of_char_dig isDigit_dig)

lemma parseUint_pad4:
  "n < 10000 \<Longrightarrow> lo \<le> n \<Longrightarrow> n \<le> hi \<Longrightarrow>
   parseUint [dig (n div 1000), dig (n div 100 mod 10), dig (n div 10 mod 10), dig (n mod 10)] lo hi = Some n"
proof -
  assume n: "n < 10000" "lo \<le> n" "n \<le> hi"
  have "n div 100 = n div 10 div 10" "n div 1000 = n div 10 div 10 div 10"
    by (simp_all flip: div_mult2_eq)
  then have "((n div 1000 * 10 + n div 100 mod 10) * 10 + n div 10 mod 10) * 10 + n mod 10 = n"
    by (simp only: div_mult_mod_eq)
  with n show ?thesis
    by (simp add: parseUint_def atoi_def of_char_dig isDigit_dig)
qed

definition in_calendar :: "time \<Rightarrow> bool" where
  "in_calendar t = (- int epoch_day * 86400 \<le> t div Second \<and> t div Second < (3652425 - int epoch_day) * 86400)"

lemma parse_rest_Z: "parse_frac ''Z'' = (0, ''Z'')" "parse_zone ''Z'' = Some 0"
  by (simp_all add: parse_frac_def parse_zone_def)

lemma parseRFC3339_digits:
  assumes "parseUint [y1, y2, y3, y4] 0 9999 = Some y" and "parseUint [m1, m2] 1 12 = Some m"
    and "parseUint [d1, d2] 1 (daysIn m y) = Some d" and "parseUint [h1, h2] 0 23 = Some h"
    and "parseUint [i1, i2] 0 59 = Some mi" and "parseUint [s1, s2] 0 59 = Some sec"
  shows "parseRFC3339 ([y1, y2, y3, y4] @ ''-'' @ [m1, m2] @ ''-'' @ [d1, d2] @ ''T'' @
           [h1, h2] @ '':'' @ [i1, i2] @ '':'' @ [s1, s2] @ ''Z'') =
         Some (((int (day_number y m d) - int epoch_day) * 86400 + int (h * 3600 + mi * 60 + sec)) * Second)"
  using assms by (simp add: parseRFC3339_def slice_def parse_rest_Z)

lemma parse_Format:
  assumes "in_calendar t"
  shows "parseRFC3339 (time_Format t) = Some (time_Truncate t)"
proof -
  define secs where "secs = nat (t div Second + int epoch_day * 86400)"
  define sod where "sod = secs mod 86400"
  obtain y m d where c: "civil (secs div 86400) = (y, m, d)"
    by (cases "civil (secs div 86400)")
  have secs: "int secs = t div Second + int epoch_day * 86400" "secs < 3652425 * 86400"
    using assms by (auto simp: secs_def in_calendar_def)
  from c secs have y: "y < 10000" by (intro civil_year_le [OF _ c]) auto
  note v = civil_correct [OF c]
  then have "m - 1 < 12" "d \<le> month_lens y ! (m - 1)" by (auto simp: daysIn_def)
  then have d31: "d \<le> 31" using month_lens_le [of "m - 1" y] by simp
  have sod: "sod < 86400" by (simp add: sod_def)
  have fmt: "time_Format t = pad4 y @ ''-'' @ pad2 m @ ''-'' @ pad2 d @ ''T'' @
         pad2 (sod div 3600) @ '':'' @ pad2 (sod div 60 mod 60) @ '':'' @ pad2 (sod mod 60) @ ''Z''"
    by (simp add: time_Format_def Let_def c secs_def [symmetric] sod_def)
  have h: "sod div 3600 \<le> 23" using sod by simp
  have tod: "sod div 3600 * 3600 + sod div 60 mod 60 * 60 + sod mod 60 = sod"
  proof -
    have "sod div 3600 * 60 + sod div 60 mod 60 = sod div 60"
      using div_mult_mod_eq [of "sod div 60" 60] by (simp flip: div_mult2_eq)
    then have "sod div 3600 * 60 * 60 + sod div 60 mod 60 * 60 = sod div 60 * 60"
      by (metis add_mult_distrib)
    then show ?thesis using div_mult_mod_eq [of sod 60] by linarith
  qed
  have whole: "((int (day_number y m d) - int epoch_day) * 86400 + int sod) * Second = time_Truncate t"
  proof -
    have "int (day_number y m d) * 86400 + int sod = int secs"
      using v div_mult_mod_eq [of secs 86400] unfolding sod_def by linarith
    then have "(int (day_number y m d) - int epoch_day) * 86400 + int sod = t div Second"
      using secs(1) by (simp add: algebra_simps)
    then show ?thesis by (simp add: time_Truncate_def minus_mod_eq_div_mult)
  qed
  have b: "d < 100" "m < 100" "sod div 3600 < 100" "sod div 60 mod 60 < 100" "sod mod 60 < 100"
    using d31 v h by (auto intro: less_trans [OF mod_less_divisor])
  have "parseRFC3339 (time_Format t) =
      Some (((int (day_number y m d) - int epoch_day) * 86400 +
             int (sod div 3600 * 3600 + sod div 60 mod 60 * 60 + sod mod 60)) * Second)"
    unfolding fmt pad4_def pad2_def if_P [OF y] if_P [OF b(1)] if_P [OF b(2)] if_P [OF b(3)]
      if_P [OF b(4)] if_P [OF b(5)]
    using v y h b by (intro parseRFC3339_digits parseUint_pad4 parseUint_pad2) auto
  then show ?thesis by (simp only: tod whole)
qed

lemma time_Parse_Format: "in_calendar t \<Longrightarrow> time_Parse lenient (time_Format t) = Some (time_Truncate t)"
  by (simp add: time_Parse_def parse_Format)

lemma time_Truncate_idem [simp]: "time_Truncate (time_Truncate t) = time_Truncate t"
  by (simp add: time_Truncate_def Second_def mod_diff_left_eq)

lemma in_calendar_Truncate [simp]: "in_calendar (time_Truncate t) = in_calendar t"
  by (simp add: in_calendar_def time_Truncate_def minus_mod_eq_div_mult Second_def)

lemma time_Truncate_le: "time_Truncate t \<le> t"
  by (simp add: time_Truncate_def Second_def)

end
