(* ===== verification/Kube_Api.thy ===== *)
theory Kube_Api
  imports Go_Time
begin

text \<open>
  The API objects both controllers read and write, with the fields the program uses and, for
  \<open>Hardware\<close>, the fields it must leave to other writers. Unstructured content is \<open>json\<close>.
\<close>

section \<open>Metadata, secrets, unstructured content\<close>

record ObjectMeta =
  om_name :: string
  om_namespace :: string
  om_labels :: smap
  om_annotations :: smap
  om_resourceVersion :: string

definition meta_of :: "string \<Rightarrow> string \<Rightarrow> ObjectMeta" where
  "meta_of n ns = \<lparr>om_name = n, om_namespace = ns, om_labels = [], om_annotations = [], om_resourceVersion = ''''\<rparr>"

text \<open>\<open>client.ObjectKeyFromObject\<close>\<close>

definition key_of :: "ObjectMeta \<Rightarrow> ObjectKey" where
  "key_of m = \<lparr>Namespace = om_namespace m, Name = om_name m\<rparr>"

text \<open>\<open>corev1.Secret\<close>\<close>

record Secret =
  sec_meta :: ObjectMeta
  sec_data :: smap

datatype json = JStr string | JMap "(string \<times> json) list" | JList "json list" | JOther

text \<open>\<open>unstructured.NestedFieldNoCopy\<close>: absent when a key is missing or an inner value is no map.\<close>

fun nested :: "json \<Rightarrow> string list \<Rightarrow> json option" where
  "nested j [] = Some j"
| "nested (JMap m) (k # ks) = (case map_of m k of None \<Rightarrow> None | Some j \<Rightarrow> nested j ks)"
| "nested _ (_ # _) = None"

text \<open>\<open>unstructured.NestedSlice\<close> and \<open>NestedString\<close> with the error ignored: the zero value.\<close>

definition NestedSlice :: "json \<Rightarrow> string list \<Rightarrow> json list" where
  "NestedSlice j ks = (case nested j ks of Some (JList xs) \<Rightarrow> xs | _ \<Rightarrow> [])"

definition NestedString :: "json \<Rightarrow> string list \<Rightarrow> string" where
  "NestedString j ks = (case nested j ks of Some (JStr s) \<Rightarrow> s | _ \<Rightarrow> '''')"

section \<open>Tinkerbell Hardware\<close>

record Netboot =
  AllowPXE :: "bool option"
  AllowWorkflow :: "bool option"
  nb_ipxe :: "json option"
  nb_osie :: "json option"

text \<open>\<open>tinkv1.DHCP\<close>; \<open>dhcp_ip\<close> is the address of the \<open>IP\<close> pointer.\<close>

record DHCP =
  dhcp_mac :: string
  dhcp_hostname :: string
  dhcp_ip :: "string option"

record Interface =
  if_netboot :: "Netboot option"
  if_dhcp :: "DHCP option"

record MetadataInstance =
  inst_id :: string
  inst_hostname :: string
  inst_operating_system :: "json option"
  inst_state :: "string option"

record HardwareMetadata =
  md_manufacturer_slug :: string
  md_facility_code :: "string option"
  md_instance :: MetadataInstance

record ObjectRef =
  ref_apiGroup :: string
  ref_kind :: string
  ref_name :: string

record HardwareSpec =
  hs_agentID :: string
  hs_enrollmentEnabled :: bool
  hs_bmcRef :: "ObjectRef option"
  hs_metadata :: "HardwareMetadata option"
  hs_interfaces :: "Interface list"
  hs_disks :: "string list"
  hs_userData :: "string option"
  hs_vendorData :: "string option"
  hs_references :: "json option"
  hs_resources :: "json option"
  hs_tinkVersion :: "int option"

record Hardware =
  hw_meta :: ObjectMeta
  hw_spec :: HardwareSpec

section \<open>BMC Machine\<close>

record SecretReference =
  sr_name :: string
  sr_namespace :: string

record Connection =
  cn_host :: string
  cn_port :: int
  cn_authSecretRef :: SecretReference
  cn_insecureTLS :: bool
  cn_preferredOrder :: "string list"
  cn_redfishPort :: int
  cn_useBasicAuth :: bool

section \<open>Objects\<close>

record TypeMeta =
  APIVersion :: string
  Kind :: string

text \<open>The payload of a Secret, of a BMC Machine and of a Hardware.\<close>

datatype body = BSecret smap | BMachine Connection | BHardware HardwareSpec

text \<open>A \<open>client.Object\<close> of the discovery controller.\<close>

record kobj =
  k_type :: TypeMeta
  k_meta :: ObjectMeta
  k_body :: body

text \<open>The concrete Go type of an object.\<close>

datatype gotype = TSecret | TMachine | THardware

fun body_type :: "body \<Rightarrow> gotype" where
  "body_type (BSecret _) = TSecret"
| "body_type (BMachine _) = TMachine"
| "body_type (BHardware _) = THardware"

end
