(* ===== verification/Teardown_Types.thy ===== *)
theory Teardown_Types
  imports Kube_Api
begin

text \<open>
  Data of the teardown controller: the constants of \<open>teardown.go\<close>, the Cluster API objects it
  reads, the seam to a Talos node (\<open>talos.go\<close>), the configuration of the \<open>Reconciler\<close>, and
  the outside world as an oracle (\<open>env\<close>) with the observations it leaves in the history
  (\<open>obs\<close>).
\<close>

section \<open>Constants\<close>

definition TeardownName :: string where
  "TeardownName = ''talos-machine-teardown''"

text \<open>\<open>clusterv1.PreTerminateDeleteHookAnnotationPrefix\<close>\<close>

definition PreTerminateDeleteHookAnnotationPrefix :: string where
  "PreTerminateDeleteHookAnnotationPrefix = ''pre-terminate.delete.hook.machine.cluster.x-k8s.io''"

definition HookAnnotation :: string where
  "HookAnnotation = PreTerminateDeleteHookAnnotationPrefix @ ''/talos-teardown''"

definition HookValue :: string where
  "HookValue = TeardownName"

definition ObservedAtAnnotation :: string where
  "ObservedAtAnnotation = ''teardown.tinkerbell.org/pre-terminate-observed-at''"

definition EtcdAnnotation :: string where
  "EtcdAnnotation = ''teardown.tinkerbell.org/etcd''"

definition ResetAnnotation :: string where
  "ResetAnnotation = ''teardown.tinkerbell.org/reset''"

definition ClusterNameLabel :: string where
  "ClusterNameLabel = ''teardown.tinkerbell.org/cluster-name''"

definition ClusterNamespaceLabel :: string where
  "ClusterNamespaceLabel = ''teardown.tinkerbell.org/cluster-namespace''"

definition EtcdLeavingAnnotation :: string where
  "EtcdLeavingAnnotation = ''controlplane.cluster.x-k8s.io/etcd-leaving''"

text \<open>Values of \<open>EtcdAnnotation\<close>.\<close>

definition EtcdNotMember :: string where "EtcdNotMember = ''not-member''"
definition EtcdLeft :: string where "EtcdLeft = ''left''"
definition EtcdRemoved :: string where "EtcdRemoved = ''removed''"
definition EtcdOrphaned :: string where "EtcdOrphaned = ''orphaned''"
definition EtcdSkippedClusterDelete :: string where "EtcdSkippedClusterDelete = ''skipped-cluster-delete''"

text \<open>Values of \<open>ResetAnnotation\<close>.\<close>

definition ResetDone :: string where "ResetDone = ''done''"
definition ResetSkippedTimeout :: string where "ResetSkippedTimeout = ''skipped-timeout''"
definition ResetSkippedNoAddress :: string where "ResetSkippedNoAddress = ''skipped-no-address''"

text \<open>Event reasons and event types.\<close>

datatype event_reason =
    EventHookStamped | EventEtcdMemberLeft | EventEtcdMemberRemoved | EventEtcdMemberOrphaned
  | EventEtcdSkippedClusterDelete | EventResetSucceeded | EventResetSkipped
  | EventTeardownComplete | EventCredentialsCached | EventCredentialsMissing

datatype event_type = EventTypeNormal | EventTypeWarning

text \<open>The prometheus instruments.\<close>

datatype metric =
    machinesCompleted
  | etcdOutcomes string
  | resetOutcomes string
  | resetDuration duration

text \<open>Labels of Cluster API, address types and the condition the controller reads.\<close>

definition CapiClusterNameLabel :: string where
  "CapiClusterNameLabel = ''cluster.x-k8s.io/cluster-name''"

definition MachineControlPlaneLabel :: string where
  "MachineControlPlaneLabel = ''cluster.x-k8s.io/control-plane''"

definition MachineInternalIP :: string where "MachineInternalIP = ''InternalIP''"
definition MachineExternalIP :: string where "MachineExternalIP = ''ExternalIP''"
definition MachineHostName :: string where "MachineHostName = ''Hostname''"

definition MachineDeletingCondition :: string where "MachineDeletingCondition = ''Deleting''"
definition ConditionTrue :: string where "ConditionTrue = ''True''"

text \<open>
  Reasons of the \<open>Deleting\<close> condition: the named constants of Cluster API the code compares
  with, and any other string. The empty reason is \<open>OtherReason ''''\<close>.
\<close>

datatype deleting_reason =
    MachineDeletingReason
  | MachineDeletingWaitingForPreDrainHookReason
  | MachineDeletingDrainingNodeReason
  | MachineDeletingWaitingForVolumeDetachReason
  | MachineDeletingWaitingForPreTerminateHookReason
  | OtherReason string

section \<open>Cluster API objects\<close>

record MachineAddress =
  addr_type :: string
  addr_address :: string

record Condition =
  cond_type :: string
  cond_status :: string
  cond_reason :: deleting_reason

text \<open>
  \<open>clusterv1.Machine\<close>. \<open>m_deletionTimestamp\<close> is \<open>None\<close> where \<open>DeletionTimestamp.IsZero()\<close>.
\<close>

record Machine =
  m_name :: string
  m_namespace :: string
  m_labels :: smap
  m_annotations :: smap
  m_creationTimestamp :: time
  m_deletionTimestamp :: "time option"
  m_clusterName :: string
  m_bootstrapKind :: string
  m_bootstrapAPIGroup :: string
  m_infraKind :: string
  m_infraAPIGroup :: string
  m_infraName :: string
  m_nodeRefName :: string
  m_addresses :: "MachineAddress list"
  m_conditions :: "Condition list"

definition zeroMachine :: Machine where
  "zeroMachine = \<lparr>m_name = '''', m_namespace = '''', m_labels = [], m_annotations = [],
     m_creationTimestamp = 0, m_deletionTimestamp = None, m_clusterName = '''',
     m_bootstrapKind = '''', m_bootstrapAPIGroup = '''', m_infraKind = '''', m_infraAPIGroup = '''',
     m_infraName = '''', m_nodeRefName = '''', m_addresses = [], m_conditions = []\<rparr>"

text \<open>\<open>client.ObjectKeyFromObject\<close>\<close>

definition ObjectKeyFromObject :: "Machine \<Rightarrow> ObjectKey" where
  "ObjectKeyFromObject m = \<lparr>Namespace = m_namespace m, Name = m_name m\<rparr>"

lemma ObjectKeyFromObject_annotations [simp]:
  "ObjectKeyFromObject (m\<lparr>m_annotations := a\<rparr>) = ObjectKeyFromObject m"
  by (simp add: ObjectKeyFromObject_def)

record Cluster =
  cl_deletionTimestamp :: "time option"

section \<open>The Talos seam\<close>

text \<open>
  A decoded talosconfig is determined by the bytes it was decoded from.
  A client is the connection \<open>talosclient.New\<close> made with the options it was given; \<open>cl_id\<close> tells
  dials with the same options apart.
\<close>

datatype talosconfig = TalosConfig string

datatype talos_option =
    WithConfig talosconfig
  | WithEndpoints "string list"
  | WithDefaultGRPCDialOptions

record talos_client =
  cl_options :: "talos_option list"
  cl_id :: nat

text \<open>\<open>talosclient.ServiceInfo\<close>: the service (which may be nil) with its state and health.\<close>

record service_info =
  svc_state :: string
  svc_healthy :: bool

record etcd_member =
  mem_id :: nat
  mem_hostname :: string

text \<open>\<open>EtcdMemberListResponse\<close>: the members of each message.\<close>

type_synonym member_list = "etcd_member list list"

record partition_spec =
  ps_label :: string
  ps_wipe :: bool

record reset_request =
  rr_graceful :: bool
  rr_reboot :: bool
  rr_wipe :: "partition_spec list"

section \<open>The reconciler, the world and its observations\<close>

record Reconciler =
  EtcdTimeout :: duration
  ResetTimeout :: duration
  EtcdCallTimeout :: duration
  ResetCallTimeout :: duration
  CacheNamespace :: string

text \<open>\<open>ctrl.Result\<close>\<close>

record Result =
  RequeueAfter :: duration

definition ZeroResult :: Result where
  "ZeroResult = \<lparr>RequeueAfter = 0\<rparr>"

definition IsZero :: "Result \<Rightarrow> bool" where
  "IsZero r = (RequeueAfter r = 0)"

text \<open>
  Every interaction with the outside, with its answer: reads and writes of the API server, the
  clock, events and metrics, and the calls of a Talos client (each under the per-call timeout it is given).
\<close>

datatype obs =
    OGetMachine ObjectKey "api_error + Machine"
  | OGetCluster ObjectKey "api_error + Cluster"
  | OGetSecret ObjectKey "api_error + Secret"
  | OGetTinkerbellMachine ObjectKey "api_error + json"
  | OGetHardware ObjectKey "api_error + Hardware"
  | OListMachines string smap "string list" "api_error + Machine list"
  | OListSecrets string "string list" "api_error + Secret list"
  | OCreateSecret Secret "api_error option"
  | OUpdateSecret Secret "api_error option"
  | ODeleteSecret Secret "api_error option"
  | ONewHelper Machine "go_error option"
  | OPatch Machine Machine "api_error option"
  | ONow time
  | OEvent event_type event_reason
  | OMetric metric
  | ODial "talos_option list" "string + talos_client"
  | OServiceInfo talos_client duration string "string + service_info option list"
  | OEtcdMemberList talos_client duration "string + member_list option"
  | OEtcdForfeitLeadership talos_client duration "string option"
  | OEtcdLeaveCluster talos_client duration "string option"
  | OEtcdRemoveMemberByID talos_client duration nat "string option"
  | OResetGeneric talos_client duration reset_request "string option"
  | OClose talos_client

type_synonym history = "obs list"

text \<open>
  The outside world: an answer to every request, from the whole history so far.
  \<open>uni_fold\<close> is the Unicode folding table, \<open>lenient\<close> the generic time parser, \<open>from_bytes\<close> the
  decoder of a talosconfig (an error message, or success).
\<close>

record env =
  get_machine :: "history \<Rightarrow> ObjectKey \<Rightarrow> api_error + Machine"
  get_cluster :: "history \<Rightarrow> ObjectKey \<Rightarrow> api_error + Cluster"
  get_secret :: "history \<Rightarrow> ObjectKey \<Rightarrow> api_error + Secret"
  get_tinkerbellmachine :: "history \<Rightarrow> ObjectKey \<Rightarrow> api_error + json"
  get_hardware :: "history \<Rightarrow> ObjectKey \<Rightarrow> api_error + Hardware"
  list_machines :: "history \<Rightarrow> string \<Rightarrow> smap \<Rightarrow> string list \<Rightarrow> api_error + Machine list"
  list_secrets :: "history \<Rightarrow> string \<Rightarrow> string list \<Rightarrow> api_error + Secret list"
  create_secret :: "history \<Rightarrow> Secret \<Rightarrow> api_error option"
  update_secret :: "history \<Rightarrow> Secret \<Rightarrow> api_error option"
  delete_secret :: "history \<Rightarrow> Secret \<Rightarrow> api_error option"
  new_helper :: "history \<Rightarrow> Machine \<Rightarrow> go_error option"
  patch_machine :: "history \<Rightarrow> Machine \<Rightarrow> Machine \<Rightarrow> api_error option"
  now_at :: "history \<Rightarrow> time"
  dial :: "history \<Rightarrow> talos_option list \<Rightarrow> string option"
  service_info :: "history \<Rightarrow> talos_client \<Rightarrow> string \<Rightarrow> string + service_info option list"
  member_list :: "history \<Rightarrow> talos_client \<Rightarrow> string + member_list option"
  forfeit :: "history \<Rightarrow> talos_client \<Rightarrow> string option"
  leave :: "history \<Rightarrow> talos_client \<Rightarrow> string option"
  remove_member :: "history \<Rightarrow> talos_client \<Rightarrow> nat \<Rightarrow> string option"
  reset_node :: "history \<Rightarrow> talos_client \<Rightarrow> reset_request \<Rightarrow> string option"
  from_bytes :: "string \<Rightarrow> string option"
  uni_fold :: "rune \<Rightarrow> rune"
  lenient :: "string \<Rightarrow> time option"

text \<open>
  The state of one reconcile: the history and the Machine object the reconcile holds in memory
  (the pointer every function receives).
\<close>

record rstate = "obs world" +
  machine :: Machine

type_synonym 'a rprog = "(rstate, 'a) state"

text \<open>Kinds of observations the properties speak about.\<close>

fun is_talos :: "obs \<Rightarrow> bool" where
  "is_talos (ODial _ _) = True"
| "is_talos (OServiceInfo _ _ _ _) = True"
| "is_talos (OEtcdMemberList _ _ _) = True"
| "is_talos (OEtcdForfeitLeadership _ _ _) = True"
| "is_talos (OEtcdLeaveCluster _ _ _) = True"
| "is_talos (OEtcdRemoveMemberByID _ _ _ _) = True"
| "is_talos (OResetGeneric _ _ _ _) = True"
| "is_talos (OClose _) = True"
| "is_talos _ = False"

fun is_etcd_op :: "obs \<Rightarrow> bool" where
  "is_etcd_op (OServiceInfo _ _ _ _) = True"
| "is_etcd_op (OEtcdMemberList _ _ _) = True"
| "is_etcd_op (OEtcdForfeitLeadership _ _ _) = True"
| "is_etcd_op (OEtcdLeaveCluster _ _ _) = True"
| "is_etcd_op (OEtcdRemoveMemberByID _ _ _ _) = True"
| "is_etcd_op _ = False"

fun is_reset :: "obs \<Rightarrow> bool" where
  "is_reset (OResetGeneric _ _ _ _) = True"
| "is_reset _ = False"

fun is_patch :: "obs \<Rightarrow> bool" where
  "is_patch (OPatch _ _ _) = True"
| "is_patch _ = False"

text \<open>Traffic that carries a version of a Machine of the API server.\<close>

fun is_version :: "obs \<Rightarrow> bool" where
  "is_version (OGetMachine _ _) = True"
| "is_version (OPatch _ _ _) = True"
| "is_version _ = False"

lemma patch_is_version: "is_patch x \<Longrightarrow> is_version x"
  by (cases x) simp_all

fun is_write :: "obs \<Rightarrow> bool" where
  "is_write (OPatch _ _ _) = True"
| "is_write (OCreateSecret _ _) = True"
| "is_write (OUpdateSecret _ _) = True"
| "is_write (ODeleteSecret _ _) = True"
| "is_write _ = False"

section \<open>The keys are pairwise distinct\<close>

lemmas annotation_keys = HookAnnotation_def ObservedAtAnnotation_def EtcdAnnotation_def
  ResetAnnotation_def EtcdLeavingAnnotation_def PreTerminateDeleteHookAnnotationPrefix_def

lemma keys_distinct [simp]:
  "HookAnnotation \<noteq> ObservedAtAnnotation" "HookAnnotation \<noteq> EtcdAnnotation"
  "HookAnnotation \<noteq> ResetAnnotation" "HookAnnotation \<noteq> EtcdLeavingAnnotation"
  "ObservedAtAnnotation \<noteq> HookAnnotation" "EtcdAnnotation \<noteq> HookAnnotation"
  "ResetAnnotation \<noteq> HookAnnotation" "EtcdLeavingAnnotation \<noteq> HookAnnotation"
  "ObservedAtAnnotation \<noteq> EtcdAnnotation" "ObservedAtAnnotation \<noteq> ResetAnnotation"
  "EtcdAnnotation \<noteq> ObservedAtAnnotation" "ResetAnnotation \<noteq> ObservedAtAnnotation"
  "EtcdAnnotation \<noteq> ResetAnnotation" "ResetAnnotation \<noteq> EtcdAnnotation"
  "EtcdLeavingAnnotation \<noteq> ObservedAtAnnotation" "EtcdLeavingAnnotation \<noteq> EtcdAnnotation"
  "EtcdLeavingAnnotation \<noteq> ResetAnnotation" "ObservedAtAnnotation \<noteq> EtcdLeavingAnnotation"
  "EtcdAnnotation \<noteq> EtcdLeavingAnnotation" "ResetAnnotation \<noteq> EtcdLeavingAnnotation"
  by (simp_all add: annotation_keys)

lemma bookkeeping_not_hook [simp]:
  "\<not> HasPrefix ObservedAtAnnotation PreTerminateDeleteHookAnnotationPrefix"
  "\<not> HasPrefix EtcdAnnotation PreTerminateDeleteHookAnnotationPrefix"
  "\<not> HasPrefix ResetAnnotation PreTerminateDeleteHookAnnotationPrefix"
  "\<not> HasPrefix EtcdLeavingAnnotation PreTerminateDeleteHookAnnotationPrefix"
  by (simp_all add: HasPrefix_def annotation_keys)

lemma hook_has_prefix [simp]: "HasPrefix HookAnnotation PreTerminateDeleteHookAnnotationPrefix"
  by (simp add: HasPrefix_def HookAnnotation_def)

end
