(* ===== verification/Talos_Client.thy ===== *)
theory Talos_Client
  imports Teardown_Types
begin

text \<open>
  \<open>talos.go\<close>: the client of a Talos node. \<open>talosclient.New\<close> and the calls of the library's client are requests whose answers the world gives;
  each method takes the timeout of the context it is called with.
\<close>

section \<open>Construction\<close>

definition newClientOptions :: "talosconfig \<Rightarrow> string \<Rightarrow> talos_option list" where
  "newClientOptions cfg endpoint = [WithConfig cfg, WithEndpoints [endpoint], WithDefaultGRPCDialOptions]"

definition NewTalosClient :: "env \<Rightarrow> talosconfig \<Rightarrow> string \<Rightarrow> (string + talos_client) rprog" where
  "NewTalosClient E cfg endpoint =
     (let options = newClientOptions cfg endpoint
      in do {
        c \<leftarrow> call (ODial options)
               (\<lambda>h. case dial E h options of
                      Some e \<Rightarrow> Inl e
                    | None \<Rightarrow> Inr \<lparr>cl_options = options, cl_id = length h\<rparr>);
        (case c of Inl err \<Rightarrow> ret (Inl err) | Inr client \<Rightarrow> ret (Inr client))
      })"

section \<open>The methods of \<open>realClient\<close>\<close>

definition ServiceInfo :: "env \<Rightarrow> talos_client \<Rightarrow> duration \<Rightarrow> string \<Rightarrow> (string + service_info option list) rprog" where
  "ServiceInfo E c timeout service = call (OServiceInfo c timeout service) (\<lambda>h. service_info E h c service)"

definition EtcdMemberList :: "env \<Rightarrow> talos_client \<Rightarrow> duration \<Rightarrow> (string + member_list option) rprog" where
  "EtcdMemberList E c timeout = call (OEtcdMemberList c timeout) (\<lambda>h. member_list E h c)"

definition EtcdForfeitLeadership :: "env \<Rightarrow> talos_client \<Rightarrow> duration \<Rightarrow> string option rprog" where
  "EtcdForfeitLeadership E c timeout = call (OEtcdForfeitLeadership c timeout) (\<lambda>h. forfeit E h c)"

definition EtcdLeaveCluster :: "env \<Rightarrow> talos_client \<Rightarrow> duration \<Rightarrow> string option rprog" where
  "EtcdLeaveCluster E c timeout = call (OEtcdLeaveCluster c timeout) (\<lambda>h. leave E h c)"

definition EtcdRemoveMemberByID :: "env \<Rightarrow> talos_client \<Rightarrow> duration \<Rightarrow> nat \<Rightarrow> string option rprog" where
  "EtcdRemoveMemberByID E c timeout i = call (OEtcdRemoveMemberByID c timeout i) (\<lambda>h. remove_member E h c i)"

definition ResetGeneric :: "env \<Rightarrow> talos_client \<Rightarrow> duration \<Rightarrow> reset_request \<Rightarrow> string option rprog" where
  "ResetGeneric E c timeout req = call (OResetGeneric c timeout req) (\<lambda>h. reset_node E h c req)"

definition Close :: "talos_client \<Rightarrow> unit rprog" where
  "Close c = emit (OClose c)"

section \<open>Scope of a client\<close>

text \<open>The endpoints a client talks to, and the one it is scoped to.\<close>

fun option_endpoints :: "talos_option \<Rightarrow> string list" where
  "option_endpoints (WithEndpoints as) = as"
| "option_endpoints _ = []"

definition cl_endpoint :: "talos_client \<Rightarrow> string" where
  "cl_endpoint c = (case concat (map option_endpoints (cl_options c)) of [a] \<Rightarrow> a | _ \<Rightarrow> '''')"

lemma cl_endpoint_new [simp]: "cl_endpoint \<lparr>cl_options = newClientOptions cfg a, cl_id = n\<rparr> = a"
  by (simp add: cl_endpoint_def newClientOptions_def)

lemmas realClient_defs = ServiceInfo_def EtcdMemberList_def EtcdForfeitLeadership_def EtcdLeaveCluster_def
  EtcdRemoveMemberByID_def ResetGeneric_def Close_def

lemma NewTalosClient_call:
  "NewTalosClient E cfg endpoint =
     call (ODial (newClientOptions cfg endpoint))
       (\<lambda>h. case dial E h (newClientOptions cfg endpoint) of
              Some e \<Rightarrow> Inl e
            | None \<Rightarrow> Inr \<lparr>cl_options = newClientOptions cfg endpoint, cl_id = length h\<rparr>)"
proof -
  have "(case_sum (\<lambda>err. ret (Inl err)) (\<lambda>client. ret (Inr client)) :: _ \<Rightarrow> (string + talos_client) rprog) = ret"
    by (simp add: fun_eq_iff split: sum.split)
  then show ?thesis by (simp add: NewTalosClient_def Let_def)
qed

end
