(* ===== verification/Qualify.thy ===== *)
theory Qualify
  imports Talos_Client
begin

text \<open>
  \<open>qualify.go\<close>: which Machines the controller services, when the hook may be stamped, when it
  may act, and which hook annotations are its own.
\<close>

definition Qualifies :: "Machine \<Rightarrow> bool" where
  "Qualifies m =
     (m_bootstrapKind m = ''TalosConfig'' \<and>
      m_bootstrapAPIGroup m = ''bootstrap.cluster.x-k8s.io'' \<and>
      m_infraKind m = ''TinkerbellMachine'' \<and>
      m_infraAPIGroup m = ''infrastructure.cluster.x-k8s.io'')"

definition HasHook :: "Machine \<Rightarrow> bool" where
  "HasHook m = mhas (m_annotations m) HookAnnotation"

fun deletingReason_of :: "Condition list \<Rightarrow> deleting_reason" where
  "deletingReason_of [] = OtherReason ''''"
| "deletingReason_of (c # cs) =
     (if cond_type c = MachineDeletingCondition \<and> cond_status c = ConditionTrue
      then cond_reason c else deletingReason_of cs)"

definition deletingReason :: "Machine \<Rightarrow> deleting_reason" where
  "deletingReason m = deletingReason_of (m_conditions m)"

definition preTerminateOrEarlier :: "deleting_reason \<Rightarrow> bool" where
  "preTerminateOrEarlier r =
     (r \<in> set [MachineDeletingReason, MachineDeletingWaitingForPreDrainHookReason,
               MachineDeletingDrainingNodeReason, MachineDeletingWaitingForVolumeDetachReason,
               MachineDeletingWaitingForPreTerminateHookReason])"

definition StampAllowed :: "Machine \<Rightarrow> bool" where
  "StampAllowed m =
     (if m_deletionTimestamp m = None then True
      else (let reason = deletingReason m
            in reason = OtherReason '''' \<or> preTerminateOrEarlier reason))"

definition AtPreTerminate :: "Machine \<Rightarrow> bool" where
  "AtPreTerminate m = (deletingReason m = MachineDeletingWaitingForPreTerminateHookReason)"

fun otherHook_in :: "smap \<Rightarrow> bool" where
  "otherHook_in [] = False"
| "otherHook_in ((key, value) # rest) =
     (if key = HookAnnotation \<or> value = HookValue then otherHook_in rest
      else if HasPrefix key PreTerminateDeleteHookAnnotationPrefix then True
      else otherHook_in rest)"

definition HasOtherPreTerminateHooks :: "Machine \<Rightarrow> bool" where
  "HasOtherPreTerminateHooks m = otherHook_in (m_annotations m)"

fun legacyKeys_in :: "smap \<Rightarrow> string list" where
  "legacyKeys_in [] = []"
| "legacyKeys_in ((key, value) # rest) =
     (if key = HookAnnotation \<or> value \<noteq> HookValue then legacyKeys_in rest
      else if HasPrefix key PreTerminateDeleteHookAnnotationPrefix then key # legacyKeys_in rest
      else legacyKeys_in rest)"

definition legacyHookKeys :: "Machine \<Rightarrow> string list" where
  "legacyHookKeys m = legacyKeys_in (m_annotations m)"

definition IsControlPlane :: "Machine \<Rightarrow> bool" where
  "IsControlPlane m = mhas (m_labels m) MachineControlPlaneLabel"

section \<open>The iteration order of the annotations does not matter\<close>

text \<open>
  Go ranges over a map in an unspecified order. Both loops are determined by the map
  itself.
\<close>

lemma otherHook_in_iff:
  "otherHook_in anns \<longleftrightarrow>
     (\<exists>k v. (k, v) \<in> set anns \<and> k \<noteq> HookAnnotation \<and> v \<noteq> HookValue \<and>
            HasPrefix k PreTerminateDeleteHookAnnotationPrefix)"
  by (induction anns rule: otherHook_in.induct) auto

lemma set_legacyKeys_in:
  "set (legacyKeys_in anns) =
     {k. (k, HookValue) \<in> set anns \<and> k \<noteq> HookAnnotation \<and>
         HasPrefix k PreTerminateDeleteHookAnnotationPrefix}"
  by (induction anns rule: legacyKeys_in.induct) auto

definition wf_machine :: "Machine \<Rightarrow> bool" where
  "wf_machine m = (wf_map (m_annotations m) \<and> wf_map (m_labels m))"

lemma wf_machine_annotations: "wf_machine m \<Longrightarrow> wf_map (m_annotations m)"
  by (simp add: wf_machine_def)

lemma HasOther_iff:
  "wf_machine m \<Longrightarrow> HasOtherPreTerminateHooks m \<longleftrightarrow>
     (\<exists>k v. map_of (m_annotations m) k = Some v \<and> k \<noteq> HookAnnotation \<and> v \<noteq> HookValue \<and>
            HasPrefix k PreTerminateDeleteHookAnnotationPrefix)"
  by (simp add: HasOtherPreTerminateHooks_def otherHook_in_iff wf_machine_def wf_map_mem_iff)

lemma set_legacyHookKeys:
  "wf_machine m \<Longrightarrow> k \<in> set (legacyHookKeys m) \<longleftrightarrow>
     map_of (m_annotations m) k = Some HookValue \<and> k \<noteq> HookAnnotation \<and>
     HasPrefix k PreTerminateDeleteHookAnnotationPrefix"
  by (simp add: legacyHookKeys_def set_legacyKeys_in wf_machine_def wf_map_mem_iff)

lemma legacy_not_hook [simp]: "HookAnnotation \<notin> set (legacyHookKeys m)"
  by (simp add: legacyHookKeys_def set_legacyKeys_in)

lemma legacy_not_bookkeeping [simp]:
  "ObservedAtAnnotation \<notin> set (legacyHookKeys m)" "EtcdAnnotation \<notin> set (legacyHookKeys m)"
  "ResetAnnotation \<notin> set (legacyHookKeys m)" "EtcdLeavingAnnotation \<notin> set (legacyHookKeys m)"
  by (simp_all add: legacyHookKeys_def set_legacyKeys_in)

text \<open>
  The pre-terminate hooks of a Machine fall into three disjoint groups: the controller's own,
  its leftovers under an old suffix, and foreign ones.
\<close>

definition pre_terminate_hooks :: "Machine \<Rightarrow> string set" where
  "pre_terminate_hooks m =
     {k. mhas (m_annotations m) k \<and> HasPrefix k PreTerminateDeleteHookAnnotationPrefix}"

lemma no_other_hooks_own:
  assumes "wf_machine m" and "\<not> HasOtherPreTerminateHooks m"
  shows "pre_terminate_hooks m \<subseteq> insert HookAnnotation (set (legacyHookKeys m))"
  using assms by (fastforce simp: pre_terminate_hooks_def mhas_def HasOther_iff set_legacyHookKeys)

lemma AtPreTerminate_StampAllowed: "AtPreTerminate m \<Longrightarrow> StampAllowed m"
  by (simp add: AtPreTerminate_def StampAllowed_def preTerminateOrEarlier_def)

lemma StampAllowed_after:
  "m_deletionTimestamp m \<noteq> None \<Longrightarrow> StampAllowed m \<Longrightarrow>
   deletingReason m = OtherReason '''' \<or> preTerminateOrEarlier (deletingReason m)"
  by (auto simp: StampAllowed_def Let_def)

section \<open>Changing the annotations only\<close>

lemma annotations_update [simp]:
  "HasHook (m\<lparr>m_annotations := a\<rparr>) = mhas a HookAnnotation"
  "Qualifies (m\<lparr>m_annotations := a\<rparr>) = Qualifies m"
  "IsControlPlane (m\<lparr>m_annotations := a\<rparr>) = IsControlPlane m"
  "deletingReason (m\<lparr>m_annotations := a\<rparr>) = deletingReason m"
  "AtPreTerminate (m\<lparr>m_annotations := a\<rparr>) = AtPreTerminate m"
  by (simp_all add: HasHook_def Qualifies_def IsControlPlane_def deletingReason_def AtPreTerminate_def)

end
