(* ===== verification/Etcd.thy ===== *)
theory Etcd
  imports Qualify
begin

text \<open>
  \<open>etcd.go\<close>: matching the victim against an etcd member list and reading the state of the
  etcd service.
\<close>

fun hostName_of :: "MachineAddress list \<Rightarrow> string option" where
  "hostName_of [] = None"
| "hostName_of (a # as) =
     (if addr_type a = MachineHostName then Some (addr_address a) else hostName_of as)"

definition hostnameCandidates :: "Machine \<Rightarrow> string list" where
  "hostnameCandidates m =
     (let nodeName = (case hostName_of (m_addresses m) of None \<Rightarrow> m_nodeRefName m | Some h \<Rightarrow> h)
      in filter (\<lambda>c. c \<noteq> '''') [nodeName, m_infraName m, m_name m])"

fun matchesMember :: "(rune \<Rightarrow> rune) \<Rightarrow> string list \<Rightarrow> string \<Rightarrow> bool" where
  "matchesMember uf [] memberHostname = False"
| "matchesMember uf (c # cs) memberHostname =
     (if EqualFold uf (CutBefore c (CHR ''.'')) (CutBefore memberHostname (CHR ''.'')) then True
      else matchesMember uf cs memberHostname)"

fun findMember_in :: "(rune \<Rightarrow> rune) \<Rightarrow> string list \<Rightarrow> etcd_member list \<Rightarrow> etcd_member option" where
  "findMember_in uf cands [] = None"
| "findMember_in uf cands (m # ms) =
     (if matchesMember uf cands (mem_hostname m) then Some m else findMember_in uf cands ms)"

definition findMember :: "(rune \<Rightarrow> rune) \<Rightarrow> member_list option \<Rightarrow> string list \<Rightarrow> etcd_member option" where
  "findMember uf resp cands =
     (case resp of None \<Rightarrow> None | Some msgs \<Rightarrow> findMember_in uf cands (concat msgs))"

definition etcdRunningState :: string where
  "etcdRunningState = ''Running''"

fun etcdHealthy :: "service_info option list \<Rightarrow> bool" where
  "etcdHealthy [] = False"
| "etcdHealthy (None # svcs) = etcdHealthy svcs"
| "etcdHealthy (Some info # svcs) =
     (if svc_state info = etcdRunningState \<and> svc_healthy info then True else etcdHealthy svcs)"

fun etcdNotFinished :: "service_info option list \<Rightarrow> bool" where
  "etcdNotFinished [] = False"
| "etcdNotFinished (svc # svcs) =
     (case svc of
        Some info \<Rightarrow> if svc_state info \<noteq> ''Finished'' then True else etcdNotFinished svcs
      | None \<Rightarrow> etcdNotFinished svcs)"

section \<open>Lemmas\<close>

lemma matchesMember_iff:
  "matchesMember uf cands h \<longleftrightarrow>
     (\<exists>c \<in> set cands. EqualFold uf (CutBefore c (CHR ''.'')) (CutBefore h (CHR ''.'')))"
  by (induction cands) auto

lemma findMember_in_eq:
  "findMember_in uf cands ms = find (\<lambda>m. matchesMember uf cands (mem_hostname m)) ms"
  by (induction ms) auto

lemma findMember_Some:
  "findMember uf resp cands = Some m \<Longrightarrow>
     (\<exists>msgs ms. resp = Some msgs \<and> ms \<in> set msgs \<and> m \<in> set ms) \<and>
     matchesMember uf cands (mem_hostname m)"
  by (auto simp: findMember_def findMember_in_eq find_Some_iff split: option.splits)
     (metis UN_iff nth_mem set_concat)

lemma findMember_None:
  "findMember uf (Some msgs) cands = None \<longleftrightarrow>
     (\<forall>ms \<in> set msgs. \<forall>m \<in> set ms. \<not> matchesMember uf cands (mem_hostname m))"
  by (auto simp: findMember_def findMember_in_eq find_None_iff)

lemma etcdHealthy_iff:
  "etcdHealthy svcs \<longleftrightarrow> (\<exists>i. Some i \<in> set svcs \<and> svc_state i = etcdRunningState \<and> svc_healthy i)"
  by (induction svcs rule: etcdHealthy.induct) auto

lemma etcdNotFinished_iff:
  "etcdNotFinished svcs \<longleftrightarrow> (\<exists>i. Some i \<in> set svcs \<and> svc_state i \<noteq> ''Finished'')"
  by (induction svcs) (auto split: option.splits)

lemma hostnameCandidates_name: "m_name m \<noteq> '''' \<Longrightarrow> m_name m \<in> set (hostnameCandidates m)"
  by (simp add: hostnameCandidates_def Let_def)

lemma matchesMember_self:
  "c \<in> set cands \<Longrightarrow> CutBefore h (CHR ''.'') = CutBefore c (CHR ''.'') \<Longrightarrow> matchesMember uf cands h"
  by (auto simp: matchesMember_iff intro!: bexI [of _ c])

lemma hostnameCandidates_annotations [simp]:
  "hostnameCandidates (m\<lparr>m_annotations := a\<rparr>) = hostnameCandidates m"
  by (simp add: hostnameCandidates_def cong: option.case_cong)

end
