(* ===== verification/Address.thy ===== *)
theory Address
  imports Etcd
begin

text \<open>
  \<open>address.go\<close>: the address of a node through the chain Machine status, TinkerbellMachine status,
  Hardware DHCP address. An empty result without an error means no source has an address.
\<close>

fun machineIP_of :: "MachineAddress list \<Rightarrow> string option" where
  "machineIP_of [] = None"
| "machineIP_of (a # as) =
     (if addr_type a = MachineInternalIP \<or> addr_type a = MachineExternalIP
      then Some (addr_address a) else machineIP_of as)"

text \<open>A string field of an unstructured map entry; \<open>''''\<close> when absent or no string.\<close>

definition strField :: "(string \<times> json) list \<Rightarrow> string \<Rightarrow> string" where
  "strField m k = (case map_of m k of Some (JStr s) \<Rightarrow> s | _ \<Rightarrow> '''')"

fun infraIP_of :: "json list \<Rightarrow> string option" where
  "infraIP_of [] = None"
| "infraIP_of (entry # rest) =
     (case entry of
        JMap addr \<Rightarrow>
          if (strField addr ''type'' = MachineInternalIP \<or> strField addr ''type'' = MachineExternalIP)
             \<and> strField addr ''address'' \<noteq> ''''
          then Some (strField addr ''address'') else infraIP_of rest
      | _ \<Rightarrow> infraIP_of rest)"

text \<open>The address in a Hardware: the DHCP IP of its first interface.\<close>

definition hardwareIP :: "Hardware \<Rightarrow> string" where
  "hardwareIP hw =
     (case hs_interfaces (hw_spec hw) of
        [] \<Rightarrow> ''''
      | i # _ \<Rightarrow>
          (case if_dhcp i of
             None \<Rightarrow> ''''
           | Some d \<Rightarrow> (case dhcp_ip d of None \<Rightarrow> '''' | Some a \<Rightarrow> a)))"

definition hardwareAddress :: "env \<Rightarrow> json \<Rightarrow> (go_error + string) rprog" where
  "hardwareAddress E tm =
     (let hardwareName = NestedString tm [''spec'', ''hardwareName''];
          target = NestedString tm [''status'', ''targetNamespace''];
          namespace = (if target = '''' then NestedString tm [''metadata'', ''namespace''] else target);
          key = \<lparr>Namespace = namespace, Name = hardwareName\<rparr>
      in if hardwareName = '''' then ret (Inr '''')
         else do {
           res \<leftarrow> call (OGetHardware key) (\<lambda>h. get_hardware E h key);
           (case res of
              Inl err \<Rightarrow>
                if IsNotFound err then ret (Inr '''')
                else ret (Inl (EWrap ''getting Hardware'' (EApi err)))
            | Inr hw \<Rightarrow> ret (Inr (hardwareIP hw)))
         })"

definition resolveAddress :: "env \<Rightarrow> Machine \<Rightarrow> (go_error + string) rprog" where
  "resolveAddress E m =
     (case machineIP_of (m_addresses m) of
        Some a \<Rightarrow> ret (Inr a)
      | None \<Rightarrow>
          if m_infraName m = '''' then ret (Inr '''')
          else (let key = \<lparr>Namespace = m_namespace m, Name = m_infraName m\<rparr>
                in do {
                  res \<leftarrow> call (OGetTinkerbellMachine key) (\<lambda>h. get_tinkerbellmachine E h key);
                  (case res of
                     Inl err \<Rightarrow>
                       if IsNotFound err then ret (Inr '''')
                       else ret (Inl (EWrap ''getting TinkerbellMachine'' (EApi err)))
                   | Inr tm \<Rightarrow>
                       (case infraIP_of (NestedSlice tm [''status'', ''addresses'']) of
                          Some a \<Rightarrow> ret (Inr a)
                        | None \<Rightarrow> hardwareAddress E tm))
                }))"

section \<open>Lemmas\<close>

lemma machineIP_of_Some:
  "machineIP_of as = Some a \<Longrightarrow>
     \<exists>x \<in> set as. addr_address x = a \<and> addr_type x \<in> {MachineInternalIP, MachineExternalIP}"
  by (induction as) (auto split: if_splits)

lemma infraIP_of_nonempty: "infraIP_of js = Some a \<Longrightarrow> a \<noteq> ''''"
  by (induction js) (auto split: json.splits if_splits)

text \<open>Resolving an address reads at most the TinkerbellMachine and the Hardware.\<close>

fun is_address_read :: "obs \<Rightarrow> bool" where
  "is_address_read (OGetTinkerbellMachine _ _) = True"
| "is_address_read (OGetHardware _ _) = True"
| "is_address_read _ = False"

lemma emits_hardwareAddress: "emits is_address_read (hardwareAddress E tm)"
  unfolding hardwareAddress_def by (intro go_effect) simp_all

lemma emits_resolveAddress [go_effect]:
  "(\<And>x. is_address_read x \<Longrightarrow> P x) \<Longrightarrow> emits P (resolveAddress E m)"
proof (rule emits_mono)
  show "emits is_address_read (resolveAddress E m)"
    unfolding resolveAddress_def by (intro go_effect emits_hardwareAddress) simp_all
qed

text \<open>
  Evidence for an address: what was read before shows it, on the first source of the chain that has one.
\<close>

definition address_evidence :: "history \<Rightarrow> Machine \<Rightarrow> string \<Rightarrow> bool" where
  "address_evidence h m a =
     (machineIP_of (m_addresses m) = Some a \<or>
      (machineIP_of (m_addresses m) = None \<and> m_infraName m \<noteq> '''' \<and>
       (\<exists>tm. OGetTinkerbellMachine \<lparr>Namespace = m_namespace m, Name = m_infraName m\<rparr> (Inr tm) \<in> set h \<and>
          (infraIP_of (NestedSlice tm [''status'', ''addresses'']) = Some a \<or>
           (infraIP_of (NestedSlice tm [''status'', ''addresses'']) = None \<and>
            (\<exists>ns hw. OGetHardware \<lparr>Namespace = ns, Name = NestedString tm [''spec'', ''hardwareName'']\<rparr> (Inr hw) \<in> set h \<and>
               hardwareIP hw = a))))))"

lemma address_evidence_mono: "address_evidence h m a \<Longrightarrow> set h \<subseteq> set h' \<Longrightarrow> address_evidence h' m a"
  unfolding address_evidence_def by blast

lemma address_evidence_append [simp]: "address_evidence h m a \<Longrightarrow> address_evidence (h @ h') m a"
  by (rule address_evidence_mono) auto

lemma wp_resolveAddress:
  "wp (resolveAddress E m) (\<lambda>res t. \<forall>a. res = Inr a \<and> a \<noteq> '''' \<longrightarrow> address_evidence (hist t) m a) s"
  unfolding resolveAddress_def hardwareAddress_def
  by (auto simp: go_wp Let_def address_evidence_def split: option.split sum.split)

lemma address_evidence_annotations [simp]:
  "address_evidence h (m\<lparr>m_annotations := x\<rparr>) a = address_evidence h m a"
  by (simp add: address_evidence_def)

end
