(* ===== verification/Credential_Cache.thy ===== *)
theory Credential_Cache
  imports Address
begin

text \<open>
  \<open>credentials.go\<close>: the controller's own copies of the clusters' talosconfig secrets: refreshing
  one (\<open>Ensure\<close>), reading a configuration (\<open>Config\<close>), collecting stale copies (\<open>GC\<close>).
  The argument \<open>ns\<close> is the namespace of the cache.
\<close>

definition talosconfigKey :: string where
  "talosconfigKey = ''talosconfig''"

definition sourceVersionAnnotation :: string where
  "sourceVersionAnnotation = ''teardown.tinkerbell.org/source-resource-version''"

definition sourceSecretName :: "ObjectKey \<Rightarrow> ObjectKey" where
  "sourceSecretName cluster =
     \<lparr>Namespace = Namespace cluster, Name = Name cluster @ ''-talosconfig''\<rparr>"

definition cachedSecretName :: "ObjectKey \<Rightarrow> string" where
  "cachedSecretName cluster = ''talosconfig-'' @ Namespace cluster @ ''-'' @ Name cluster"

definition cachedSecretKey :: "string \<Rightarrow> ObjectKey \<Rightarrow> ObjectKey" where
  "cachedSecretKey ns cluster = \<lparr>Namespace = ns, Name = cachedSecretName cluster\<rparr>"

text \<open>The copy \<open>Ensure\<close> writes.\<close>

definition cachedCopy :: "string \<Rightarrow> ObjectKey \<Rightarrow> Secret \<Rightarrow> Secret" where
  "cachedCopy ns cluster source =
     \<lparr>sec_meta =
        \<lparr>om_name = cachedSecretName cluster, om_namespace = ns,
         om_labels = [(ClusterNameLabel, Name cluster), (ClusterNamespaceLabel, Namespace cluster)],
         om_annotations = [(sourceVersionAnnotation, om_resourceVersion (sec_meta source))],
         om_resourceVersion = ''''\<rparr>,
      sec_data = [(talosconfigKey, mget (sec_data source) talosconfigKey)]\<rparr>"

definition Ensure :: "env \<Rightarrow> string \<Rightarrow> ObjectKey \<Rightarrow> (obs, 'z, go_error + bool) prog" where
  "Ensure E ns cluster = do {
     res \<leftarrow> call (OGetSecret (sourceSecretName cluster)) (\<lambda>h. get_secret E h (sourceSecretName cluster));
     (case res of
        Inl err \<Rightarrow> if IsNotFound err then ret (Inr False) else ret (Inl (EApi err))
      | Inr source \<Rightarrow>
          (let cached = cachedCopy ns cluster source; key = key_of (sec_meta cached)
           in do {
             found \<leftarrow> call (OGetSecret key) (\<lambda>h. get_secret E h key);
             (case found of
                Inl err \<Rightarrow>
                  if IsNotFound err then do {
                    e \<leftarrow> call (OCreateSecret cached) (\<lambda>h. create_secret E h cached);
                    (case e of None \<Rightarrow> ret (Inr True) | Some err \<Rightarrow> ret (Inl (EApi err)))
                  } else ret (Inl (EApi err))
              | Inr existing \<Rightarrow>
                  if mget (om_annotations (sec_meta existing)) sourceVersionAnnotation =
                     om_resourceVersion (sec_meta source)
                  then ret (Inr False)
                  else (let updated = cached\<lparr>sec_meta := (sec_meta cached)
                              \<lparr>om_resourceVersion := om_resourceVersion (sec_meta existing)\<rparr>\<rparr>
                        in do {
                          e \<leftarrow> call (OUpdateSecret updated) (\<lambda>h. update_secret E h updated);
                          (case e of None \<Rightarrow> ret (Inr True) | Some err \<Rightarrow> ret (Inl (EApi err)))
                        }))
           }))
   }"

text \<open>\<open>talosconfig.FromBytes\<close> on the secret's data, with its error wrapped.\<close>

definition decodeConfig :: "env \<Rightarrow> Secret \<Rightarrow> go_error + talosconfig" where
  "decodeConfig E secret =
     (let bytes = mget (sec_data secret) talosconfigKey
      in case from_bytes E bytes of
           Some e \<Rightarrow> Inl (EWrap ''parsing talosconfig'' (EExt e))
         | None \<Rightarrow> Inr (TalosConfig bytes))"

definition Config :: "env \<Rightarrow> string \<Rightarrow> ObjectKey \<Rightarrow> (obs, 'z, go_error + talosconfig) prog" where
  "Config E ns cluster = do {
     live \<leftarrow> call (OGetSecret (sourceSecretName cluster)) (\<lambda>h. get_secret E h (sourceSecretName cluster));
     res \<leftarrow> (case live of
               Inl err \<Rightarrow>
                 if IsNotFound err
                 then call (OGetSecret (cachedSecretKey ns cluster)) (\<lambda>h. get_secret E h (cachedSecretKey ns cluster))
                 else ret live
             | Inr _ \<Rightarrow> ret live);
     (case res of
        Inl err \<Rightarrow> ret (Inl (EApi err))
      | Inr secret \<Rightarrow> ret (decodeConfig E secret))
   }"

text \<open>The cluster a cached copy belongs to, read off its labels.\<close>

definition clusterOf :: "Secret \<Rightarrow> ObjectKey" where
  "clusterOf secret =
     \<lparr>Namespace = mget (om_labels (sec_meta secret)) ClusterNamespaceLabel,
      Name = mget (om_labels (sec_meta secret)) ClusterNameLabel\<rparr>"

definition clusterGone :: "env \<Rightarrow> ObjectKey \<Rightarrow> (obs, 'z, go_error + bool) prog" where
  "clusterGone E cluster = do {
     res \<leftarrow> call (OGetCluster cluster) (\<lambda>h. get_cluster E h cluster);
     (case res of
        Inr _ \<Rightarrow> ret (Inr False)
      | Inl err \<Rightarrow>
          if \<not> IsNotFound err then ret (Inl (EApi err))
          else (let labels = [(CapiClusterNameLabel, Name cluster)]
                in do {
                  machines \<leftarrow> call (OListMachines (Namespace cluster) labels [])
                                (\<lambda>h. list_machines E h (Namespace cluster) labels []);
                  (case machines of
                     Inl err \<Rightarrow> ret (Inl (EApi err))
                   | Inr items \<Rightarrow> ret (Inr (\<not> list_ex Qualifies items)))
                }))
   }"

fun GC_loop :: "env \<Rightarrow> Secret list \<Rightarrow> (obs, 'z, go_error + unit) prog" where
  "GC_loop E [] = ret (Inr ())"
| "GC_loop E (secret # rest) = do {
     stale \<leftarrow> clusterGone E (clusterOf secret);
     (case stale of
        Inl err \<Rightarrow> ret (Inl err)
      | Inr False \<Rightarrow> GC_loop E rest
      | Inr True \<Rightarrow> do {
          e \<leftarrow> call (ODeleteSecret secret) (\<lambda>h. delete_secret E h secret);
          (case e of
             Some err \<Rightarrow> if \<not> IsNotFound err then ret (Inl (EApi err)) else GC_loop E rest
           | None \<Rightarrow> GC_loop E rest)
        })
   }"

definition GC :: "env \<Rightarrow> string \<Rightarrow> (obs, 'z, go_error + unit) prog" where
  "GC E ns = do {
     res \<leftarrow> call (OListSecrets ns [ClusterNameLabel]) (\<lambda>h. list_secrets E h ns [ClusterNameLabel]);
     (case res of
        Inl err \<Rightarrow> ret (Inl (EApi err))
      | Inr items \<Rightarrow> GC_loop E items)
   }"

section \<open>Lemmas\<close>

lemma clusterOf_cachedCopy [simp]: "clusterOf (cachedCopy ns cluster source) = cluster"
  by (simp add: clusterOf_def cachedCopy_def mget_def ClusterNameLabel_def ClusterNamespaceLabel_def)

lemma key_of_cachedCopy [simp]:
  "key_of (sec_meta (cachedCopy ns cluster source)) = cachedSecretKey ns cluster"
  by (simp add: key_of_def cachedCopy_def cachedSecretKey_def)

lemma decodeConfig_cachedCopy [simp]:
  "decodeConfig E (cachedCopy ns cluster source) = decodeConfig E source"
  by (simp add: decodeConfig_def cachedCopy_def mget_def)

text \<open>What the cache and the configuration read and write.\<close>

fun is_secret_io :: "obs \<Rightarrow> bool" where
  "is_secret_io (OGetSecret _ _) = True"
| "is_secret_io (OCreateSecret _ _) = True"
| "is_secret_io (OUpdateSecret _ _) = True"
| "is_secret_io _ = False"

fun is_secret_read :: "obs \<Rightarrow> bool" where
  "is_secret_read (OGetSecret _ _) = True"
| "is_secret_read _ = False"

lemma emits_Ensure [go_effect]: "(\<And>x. is_secret_io x \<Longrightarrow> P x) \<Longrightarrow> emits P (Ensure E ns cluster)"
proof (rule emits_mono)
  show "emits is_secret_io (Ensure E ns cluster)"
    unfolding Ensure_def by (intro go_effect) simp_all
qed

lemma emits_Config [go_effect]: "(\<And>x. is_secret_read x \<Longrightarrow> P x) \<Longrightarrow> emits P (Config E ns cluster)"
proof (rule emits_mono)
  show "emits is_secret_read (Config E ns cluster)"
    unfolding Config_def by (intro go_effect) simp_all
qed

text \<open>
  The evidence for a deletion: the Cluster was not found and no qualifying Machine of it was
  listed, both just before.
\<close>

definition gc_evidence :: "Secret \<Rightarrow> obs list \<Rightarrow> bool" where
  "gc_evidence secret h =
     (\<exists>h' ms. h = h' @ [OGetCluster (clusterOf secret) (Inl NotFound),
                       OListMachines (Namespace (clusterOf secret))
                         [(CapiClusterNameLabel, Name (clusterOf secret))] [] (Inr ms)] \<and>
              (\<forall>m \<in> set ms. \<not> Qualifies m))"

fun gc_justified :: "obs list \<Rightarrow> obs \<Rightarrow> bool" where
  "gc_justified h (ODeleteSecret secret _) = gc_evidence secret h"
| "gc_justified h _ = True"

lemma wp_clusterGone:
  "wp (clusterGone E (clusterOf secret))
     (\<lambda>r t. (justified gc_justified (hist s) \<longrightarrow> justified gc_justified (hist t)) \<and>
            (r = Inr True \<longrightarrow> gc_evidence secret (hist t))) s"
  unfolding clusterGone_def
  by (auto simp: go_wp gc_evidence_def IsNotFound_def list_ex_iff Let_def
      split: sum.split)

lemma justifies_GC_loop: "justifies gc_justified (GC_loop E secrets :: (obs, 'z, go_error + unit) prog)"
proof (induction secrets)
  case Nil
  show ?case by (simp add: justifies_rules)
next
  case (Cons secret rest)
  show ?case
  proof (rule obeysI)
    fix s :: "(obs, 'z) world_scheme"
    note rest = justifies.eff_wp [OF Cons.IH, of s]
    show "wp (GC_loop E (secret # rest)) (\<lambda>_. just_rel gc_justified s) s"
      unfolding GC_loop.simps wp_bind
      by (rule wp_mono [OF wp_clusterGone [of E secret s]])
         (auto simp: go_wp just_rel_def split: sum.split bool.split option.split
           intro!: rest)
  qed
qed

section \<open>A sweep misses no stale copy\<close>

text \<open>Why a copy was kept: its Cluster, or a qualifying Machine of it, was seen.\<close>

definition keep_evidence :: "Secret \<Rightarrow> obs list \<Rightarrow> bool" where
  "keep_evidence secret h =
     ((\<exists>c. OGetCluster (clusterOf secret) (Inr c) \<in> set h) \<or>
      (\<exists>ms m. OListMachines (Namespace (clusterOf secret))
                [(CapiClusterNameLabel, Name (clusterOf secret))] [] (Inr ms) \<in> set h \<and>
              m \<in> set ms \<and> Qualifies m))"

text \<open>It was deleted: the API server took the deletion, or had the copy no more.\<close>

definition swept :: "Secret \<Rightarrow> obs list \<Rightarrow> bool" where
  "swept secret h =
     (keep_evidence secret h \<or> ODeleteSecret secret None \<in> set h \<or> ODeleteSecret secret (Some NotFound) \<in> set h)"

lemma swept_append [simp]: "swept secret h \<Longrightarrow> swept secret (h @ h')" "swept secret h \<Longrightarrow> swept secret (h' @ h)"
  by (auto simp: swept_def keep_evidence_def)

lemma wp_clusterGone_keep:
  "wp (clusterGone E (clusterOf secret))
     (\<lambda>r t. \<exists>new. hist t = hist s @ new \<and> (r = Inr False \<longrightarrow> swept secret new)) s"
  unfolding clusterGone_def
  by (auto simp: go_wp swept_def keep_evidence_def list_ex_iff Let_def split: sum.split)

lemma wp_GC_loop_swept:
  fixes s :: "(obs, 'z) world_scheme"
  shows "wp (GC_loop E secrets)
     (\<lambda>r t. \<exists>new. hist t = hist s @ new \<and> (r = Inr () \<longrightarrow> list_all (\<lambda>x. swept x new) secrets)) s"
proof (induction secrets arbitrary: s)
  case (Cons secret rest)
  let ?Q = "\<lambda>r t. \<exists>new. hist t = hist s @ new \<and> (r = Inr () \<longrightarrow> list_all (\<lambda>x. swept x new) (secret # rest))"
  have step: "wp (GC_loop E rest) ?Q t"
    if "hist t = hist s @ new" "swept secret new" for t :: "(obs, 'z) world_scheme" and new
    by (rule wp_mono [OF Cons.IH]) (use that in \<open>auto simp: list_all_iff\<close>)
  have delete: "wp (call (ODeleteSecret secret) (\<lambda>h. delete_secret E h secret) \<bind>
       (\<lambda>e. case e of Some err \<Rightarrow> if \<not> IsNotFound err then ret (Inl (EApi err)) else GC_loop E rest
         | None \<Rightarrow> GC_loop E rest)) ?Q t"
    if "hist t = hist s @ new" for t :: "(obs, 'z) world_scheme" and new
  proof -
    have go: "wp (GC_loop E rest) ?Q (t\<lparr>hist := hist t @ [ODeleteSecret secret ans]\<rparr>)" if "ans = None \<or> ans = Some NotFound" for ans
      by (rule step [of _ "new @ [ODeleteSecret secret ans]"]) (use that \<open>hist t = hist s @ new\<close> in \<open>auto simp: swept_def\<close>)
    show ?thesis
      unfolding wp_bind wp_call
    proof (cases "delete_secret E (hist t) secret")
      case None
      with go [of None] show "wp (case delete_secret E (hist t) secret of Some err \<Rightarrow>
            if \<not> IsNotFound err then ret (Inl (EApi err)) else GC_loop E rest | None \<Rightarrow> GC_loop E rest) ?Q
          (t\<lparr>hist := hist t @ [ODeleteSecret secret (delete_secret E (hist t) secret)]\<rparr>)" by simp
    next
      case (Some err)
      with go [of "Some err"] that show "wp (case delete_secret E (hist t) secret of Some err \<Rightarrow>
            if \<not> IsNotFound err then ret (Inl (EApi err)) else GC_loop E rest | None \<Rightarrow> GC_loop E rest) ?Q
          (t\<lparr>hist := hist t @ [ODeleteSecret secret (delete_secret E (hist t) secret)]\<rparr>)"
        by (cases err) (simp_all add: IsNotFound_def wp_return)
    qed
  qed
  show ?case
    unfolding GC_loop.simps wp_bind [of "clusterGone E (clusterOf secret)"]
  proof (rule wp_mono [OF wp_clusterGone_keep], goal_cases)
    case (1 r t)
    then obtain new where new: "hist t = hist s @ new" "r = Inr False \<Longrightarrow> swept secret new" by blast
    consider (error) e where "r = Inl e" | (gone) "r = Inr True" | (keep) "r = Inr False"
      by (metis sum.exhaust)
    then show ?case
    proof cases
      case error
      with new(1) show ?thesis by (simp add: wp_return)
    next
      case gone
      show ?thesis unfolding gone sum.case bool.case by (rule delete [OF new(1)])
    next
      case keep
      show ?thesis unfolding keep sum.case bool.case by (rule step [OF new(1) new(2) [OF keep]])
    qed
  qed
qed (simp add: wp_return)

section \<open>One refresh\<close>

text \<open>A write stores a copy of the source just read, under the cache's name for the cluster.\<close>

fun ensure_justified :: "string \<Rightarrow> ObjectKey \<Rightarrow> obs list \<Rightarrow> obs \<Rightarrow> bool" where
  "ensure_justified ns cluster h (OCreateSecret c _) =
     (\<exists>source. OGetSecret (sourceSecretName cluster) (Inr source) \<in> set h \<and> c = cachedCopy ns cluster source \<and>
        OGetSecret (cachedSecretKey ns cluster) (Inl NotFound) \<in> set h)"
| "ensure_justified ns cluster h (OUpdateSecret c _) =
     (\<exists>source existing. OGetSecret (sourceSecretName cluster) (Inr source) \<in> set h \<and>
        OGetSecret (cachedSecretKey ns cluster) (Inr existing) \<in> set h \<and>
        mget (om_annotations (sec_meta existing)) sourceVersionAnnotation \<noteq> om_resourceVersion (sec_meta source) \<and>
        c = (cachedCopy ns cluster source)\<lparr>sec_meta := (sec_meta (cachedCopy ns cluster source))
              \<lparr>om_resourceVersion := om_resourceVersion (sec_meta existing)\<rparr>\<rparr>)"
| "ensure_justified ns cluster h (ODeleteSecret _ _) = False"
| "ensure_justified ns cluster h _ = True"

lemma justifies_Ensure: "justifies (ensure_justified ns cluster) (Ensure E ns cluster)"
  by (rule obeysI)
     (auto simp: Ensure_def go_wp Let_def just_rel_def IsNotFound_def split: sum.split option.split)

text \<open>A refresh that reports a write had one accepted, under the cache's key and with the data of a copy of the source.\<close>

lemma ensure_wrote:
  assumes "run_state (Ensure E ns cluster) s = (Inr True, s\<lparr>hist := hist s @ new\<rparr>)"
  shows "\<exists>source c. get_secret E (hist s) (sourceSecretName cluster) = Inr source \<and>
     (OCreateSecret c None \<in> set new \<or> OUpdateSecret c None \<in> set new) \<and>
     key_of (sec_meta c) = cachedSecretKey ns cluster \<and> sec_data c = sec_data (cachedCopy ns cluster source)"
proof -
  have "wp (Ensure E ns cluster) (\<lambda>res t. \<forall>new. res = Inr True \<longrightarrow> hist t = hist s @ new \<longrightarrow>
     (\<exists>source c. get_secret E (hist s) (sourceSecretName cluster) = Inr source \<and>
       (OCreateSecret c None \<in> set new \<or> OUpdateSecret c None \<in> set new) \<and>
       key_of (sec_meta c) = cachedSecretKey ns cluster \<and> sec_data c = sec_data (cachedCopy ns cluster source))) s"
    unfolding Ensure_def
    by (auto simp: go_wp Let_def split: sum.split option.split)
       (force simp: key_of_def cachedCopy_def cachedSecretKey_def)+
  from wp_run [OF assms this] show ?thesis by simp
qed

end
