(* ===== verification/Reconciler_Model.thy ===== *)
theory Reconciler_Model
  imports Credential_Cache "HOL-Library.Product_Lexorder"
begin

text \<open>
  \<open>reconciler.go\<close> (and \<open>sortByAge\<close> of \<open>setup.go\<close>): the pre-terminate state machine, one definition
  per function of the source. The Machine pointer the source passes around is the field
  \<open>machine\<close> of the state; only \<open>patchAnnotations\<close> writes to it. Log lines and message texts are not
  modelled; a deferred \<open>Close\<close> is an observation at each return of its function.
\<close>

definition hookWaitRequeue :: duration where
  "hookWaitRequeue = 15 * Second"

section \<open>State, clock, events\<close>

definition theMachine :: "Machine rprog" where
  "theMachine = State (\<lambda>s. (machine s, s))"

definition setMachine :: "Machine \<Rightarrow> unit rprog" where
  "setMachine m = State (\<lambda>s. ((), s\<lparr>machine := m\<rparr>))"

definition now :: "env \<Rightarrow> time rprog" where
  "now E = call ONow (now_at E)"

definition event :: "event_type \<Rightarrow> event_reason \<Rightarrow> unit rprog" where
  "event ty reason = emit (OEvent ty reason)"

definition TalosFactory :: "env \<Rightarrow> talosconfig \<Rightarrow> string \<Rightarrow> (string + talos_client) rprog" where
  "TalosFactory E cfg endpoint = NewTalosClient E cfg endpoint"

section \<open>Annotations\<close>

text \<open>\<open>mutate\<close> returns \<open>None\<close> where the closure of the source returns false.\<close>

definition patchAnnotations :: "env \<Rightarrow> (smap \<Rightarrow> smap option) \<Rightarrow> (go_error + unit) rprog" where
  "patchAnnotations E mutate = do {
     m \<leftarrow> theMachine;
     helper \<leftarrow> call (ONewHelper m) (\<lambda>h. new_helper E h m);
     (case helper of
        Some err \<Rightarrow> ret (Inl err)
      | None \<Rightarrow>
          (case mutate (m_annotations m) of
             None \<Rightarrow> ret (Inr ())
           | Some annotations \<Rightarrow>
               (let m' = m\<lparr>m_annotations := annotations\<rparr>
                in do {
                  setMachine m';
                  res \<leftarrow> call (OPatch m m') (\<lambda>h. patch_machine E h m m');
                  (case res of None \<Rightarrow> ret (Inr ()) | Some err \<Rightarrow> ret (Inl (EApi err)))
                })))
   }"

definition stampPhase :: "env \<Rightarrow> string \<Rightarrow> string \<Rightarrow> (go_error + unit) rprog" where
  "stampPhase E key value =
     patchAnnotations E (\<lambda>ann. if mget ann key = value then None else Some (mput key value ann))"

definition clusterKeyFor :: "Machine \<Rightarrow> ObjectKey" where
  "clusterKeyFor m =
     \<lparr>Namespace = m_namespace m,
      Name = (if m_clusterName m = '''' then mget (m_labels m) CapiClusterNameLabel else m_clusterName m)\<rparr>"

definition ensureCredentials :: "env \<Rightarrow> Reconciler \<Rightarrow> (go_error + unit) rprog" where
  "ensureCredentials E r = do {
     m \<leftarrow> theMachine;
     res \<leftarrow> Ensure E (CacheNamespace r) (clusterKeyFor m);
     (case res of
        Inl err \<Rightarrow> ret (Inl err)
      | Inr wrote \<Rightarrow>
          if wrote then do { event EventTypeNormal EventCredentialsCached; ret (Inr ()) }
          else ret (Inr ()))
   }"

definition ensureHook :: "env \<Rightarrow> (go_error + unit) rprog" where
  "ensureHook E = do {
     m \<leftarrow> theMachine;
     if HasHook m \<or> \<not> StampAllowed m then ret (Inr ())
     else do {
       res \<leftarrow> patchAnnotations E
                (\<lambda>ann. Some (mdel_all (legacyHookKeys m) (mput HookAnnotation HookValue ann)));
       (case res of
          Inl err \<Rightarrow> ret (Inl err)
        | Inr _ \<Rightarrow> do { event EventTypeNormal EventHookStamped; ret (Inr ()) })
     }
   }"

definition reconcileNormal :: "env \<Rightarrow> Reconciler \<Rightarrow> (go_error + unit) rprog" where
  "reconcileNormal E r = do {
     res \<leftarrow> ensureHook E;
     (case res of
        Inl err \<Rightarrow> ret (Inl err)
      | Inr _ \<Rightarrow> ensureCredentials E r)
   }"

text \<open>The time recorded in \<open>ObservedAtAnnotation\<close>, if it parses.\<close>

definition recordedObservedAt :: "env \<Rightarrow> Machine \<Rightarrow> time option" where
  "recordedObservedAt E m =
     (case map_of (m_annotations m) ObservedAtAnnotation of
        None \<Rightarrow> None
      | Some value \<Rightarrow> time_Parse (lenient E) value)"

definition ensureObservedAt :: "env \<Rightarrow> (go_error + time) rprog" where
  "ensureObservedAt E = do {
     m \<leftarrow> theMachine;
     (case recordedObservedAt E m of
        Some observedAt \<Rightarrow> ret (Inr observedAt)
      | None \<Rightarrow> do {
          t \<leftarrow> now E;
          (let observedAt = time_Truncate t
           in do {
             res \<leftarrow> patchAnnotations E
                      (\<lambda>ann. Some (mput ObservedAtAnnotation (time_Format observedAt) ann));
             (case res of Inl err \<Rightarrow> ret (Inl err) | Inr _ \<Rightarrow> ret (Inr observedAt))
           })
        })
   }"

definition clusterDeleting :: "env \<Rightarrow> (go_error + bool) rprog" where
  "clusterDeleting E = do {
     m \<leftarrow> theMachine;
     res \<leftarrow> call (OGetCluster (clusterKeyFor m)) (\<lambda>h. get_cluster E h (clusterKeyFor m));
     (case res of
        Inl err \<Rightarrow> if IsNotFound err then ret (Inr True) else ret (Inl (EApi err))
      | Inr cluster \<Rightarrow> ret (Inr (cl_deletionTimestamp cluster \<noteq> None)))
   }"

definition release :: "env \<Rightarrow> (go_error + unit) rprog" where
  "release E = do {
     m \<leftarrow> theMachine;
     if \<not> HasHook m then ret (Inr ())
     else do {
       res \<leftarrow> patchAnnotations E (\<lambda>ann. Some (mdel_all (legacyHookKeys m) (mdel HookAnnotation ann)));
       (case res of
          Inl err \<Rightarrow> ret (Inl err)
        | Inr _ \<Rightarrow> do {
            event EventTypeNormal EventTeardownComplete;
            emit (OMetric machinesCompleted);
            ret (Inr ())
          })
     }
   }"

section \<open>The etcd phase\<close>

definition listControlPlaneMachines :: "env \<Rightarrow> Machine \<Rightarrow> (go_error + Machine list) rprog" where
  "listControlPlaneMachines E m =
     (let labels = [(CapiClusterNameLabel, Name (clusterKeyFor m))]; has = [MachineControlPlaneLabel]
      in do {
        res \<leftarrow> call (OListMachines (m_namespace m) labels has)
                 (\<lambda>h. list_machines E h (m_namespace m) labels has);
        (case res of Inl err \<Rightarrow> ret (Inl (EApi err)) | Inr items \<Rightarrow> ret (Inr items))
      })"

text \<open>
  The loop of \<open>serializeControlPlane\<close>: must \<open>m\<close> wait for one of the peers? The deletion
  timestamps are dereferenced in the source; a missing one would panic.
\<close>

fun serialHold :: "Machine list \<Rightarrow> Machine \<Rightarrow> go_error + bool" where
  "serialHold [] m = Inr False"
| "serialHold (peer # rest) m =
     (if m_name peer = m_name m \<or> m_deletionTimestamp peer = None \<or> \<not> HasHook peer
      then serialHold rest m
      else (case (m_deletionTimestamp peer, m_deletionTimestamp m) of
              (Some p, Some d) \<Rightarrow>
                if p < d \<or> (p = d \<and> m_name peer < m_name m) then Inr True
                else serialHold rest m
            | _ \<Rightarrow> Inl NilDeref))"

definition serializeControlPlane :: "env \<Rightarrow> (go_error + Result) rprog" where
  "serializeControlPlane E = do {
     m \<leftarrow> theMachine;
     peers \<leftarrow> listControlPlaneMachines E m;
     (case peers of
        Inl err \<Rightarrow> ret (Inl err)
      | Inr items \<Rightarrow>
          (case serialHold items m of
             Inl err \<Rightarrow> ret (Inl err)
           | Inr True \<Rightarrow> ret (Inr \<lparr>RequeueAfter = hookWaitRequeue\<rparr>)
           | Inr False \<Rightarrow> ret (Inr ZeroResult)))
   }"

definition age_key :: "Machine \<Rightarrow> time \<times> string" where
  "age_key m = (m_creationTimestamp m, m_name m)"

definition sortByAge :: "Machine list \<Rightarrow> Machine list" where
  "sortByAge ms = sort_key age_key ms"

definition peerCandidate :: "Machine \<Rightarrow> Machine \<Rightarrow> bool" where
  "peerCandidate victim m =
     (\<not> (m_name m = m_name victim \<or> m_deletionTimestamp m \<noteq> None) \<and>
      \<not> mhas (m_annotations m) EtcdLeavingAnnotation)"

definition orderPeers :: "Machine list \<Rightarrow> Machine \<Rightarrow> Machine list" where
  "orderPeers machines victim =
     (let cands = filter (peerCandidate victim) machines;
          withNodeRef = filter (\<lambda>m. m_nodeRefName m \<noteq> '''') cands;
          withoutNodeRef = filter (\<lambda>m. \<not> m_nodeRefName m \<noteq> '''') cands
      in sortByAge withNodeRef @ sortByAge withoutNodeRef)"

definition callServiceInfo :: "env \<Rightarrow> Reconciler \<Rightarrow> talos_client \<Rightarrow> (string + service_info option list) rprog" where
  "callServiceInfo E r c = ServiceInfo E c (EtcdCallTimeout r) ''etcd''"

definition probePeer ::
  "env \<Rightarrow> Reconciler \<Rightarrow> Machine \<Rightarrow> talosconfig \<Rightarrow> (talos_client \<times> member_list option) option rprog" where
  "probePeer E r peer cfg = do {
     address \<leftarrow> resolveAddress E peer;
     (case address of
        Inl err \<Rightarrow> ret None
      | Inr addr \<Rightarrow>
          if addr = '''' then ret None
          else do {
            dialed \<leftarrow> TalosFactory E cfg addr;
            (case dialed of
               Inl err \<Rightarrow> ret None
             | Inr peerClient \<Rightarrow> do {
                 svcs \<leftarrow> callServiceInfo E r peerClient;
                 if (case svcs of Inl _ \<Rightarrow> True | Inr infos \<Rightarrow> \<not> etcdHealthy infos)
                 then do { Close peerClient; ret None }
                 else do {
                   resp \<leftarrow> EtcdMemberList E peerClient (EtcdCallTimeout r);
                   (case resp of
                      Inl err \<Rightarrow> do { Close peerClient; ret None }
                    | Inr members \<Rightarrow> ret (Some (peerClient, members)))
                 }
               })
          })
   }"

fun probePeers ::
  "env \<Rightarrow> Reconciler \<Rightarrow> talosconfig \<Rightarrow> Machine list \<Rightarrow> (go_error + talos_client \<times> member_list option) rprog" where
  "probePeers E r cfg [] = ret (Inl (ENew ''no healthy etcd peer reachable''))"
| "probePeers E r cfg (peer # rest) = do {
     res \<leftarrow> probePeer E r peer cfg;
     (case res of
        Some found \<Rightarrow> ret (Inr found)
      | None \<Rightarrow> probePeers E r cfg rest)
   }"

definition findHealthyPeer ::
  "env \<Rightarrow> Reconciler \<Rightarrow> talosconfig \<Rightarrow> (go_error + talos_client \<times> member_list option) rprog" where
  "findHealthyPeer E r cfg = do {
     m \<leftarrow> theMachine;
     peers \<leftarrow> listControlPlaneMachines E m;
     (case peers of
        Inl err \<Rightarrow> ret (Inl err)
      | Inr items \<Rightarrow> probePeers E r cfg (orderPeers items m))
   }"

definition leaveViaVictim :: "env \<Rightarrow> Reconciler \<Rightarrow> talosconfig \<Rightarrow> bool rprog" where
  "leaveViaVictim E r cfg = do {
     m \<leftarrow> theMachine;
     address \<leftarrow> resolveAddress E m;
     (case address of
        Inl err \<Rightarrow> ret False
      | Inr addr \<Rightarrow>
          if addr = '''' then ret False
          else do {
            dialed \<leftarrow> TalosFactory E cfg addr;
            (case dialed of
               Inl err \<Rightarrow> ret False
             | Inr victimClient \<Rightarrow> do {
                 svcs \<leftarrow> callServiceInfo E r victimClient;
                 if (case svcs of Inl _ \<Rightarrow> True | Inr infos \<Rightarrow> \<not> etcdNotFinished infos)
                 then do { Close victimClient; ret False }
                 else do {
                   (if \<not> mhas (m_annotations m) EtcdLeavingAnnotation
                    then do {
                      _ \<leftarrow> EtcdForfeitLeadership E victimClient (EtcdCallTimeout r);
                      ret ()
                    } else ret ());
                   res \<leftarrow> EtcdLeaveCluster E victimClient (EtcdCallTimeout r);
                   Close victimClient;
                   ret (res = None)
                 }
               })
          })
   }"

definition tryEtcdRemoval :: "env \<Rightarrow> Reconciler \<Rightarrow> (go_error + string) rprog" where
  "tryEtcdRemoval E r = do {
     m \<leftarrow> theMachine;
     config \<leftarrow> Config E (CacheNamespace r) (clusterKeyFor m);
     (case config of
        Inl err \<Rightarrow> do {
          event EventTypeWarning EventCredentialsMissing;
          ret (Inl (EWrap ''loading talosconfig'' err))
        }
      | Inr cfg \<Rightarrow> do {
          peer \<leftarrow> findHealthyPeer E r cfg;
          (case peer of
             Inl err \<Rightarrow> ret (Inl err)
           | Inr (peerClient, memberResp) \<Rightarrow>
               (case findMember (uni_fold E) memberResp (hostnameCandidates m) of
                  None \<Rightarrow> do { Close peerClient; ret (Inr EtcdNotMember) }
                | Some member \<Rightarrow> do {
                    left \<leftarrow> leaveViaVictim E r cfg;
                    if left then do { Close peerClient; ret (Inr EtcdLeft) }
                    else do {
                      res \<leftarrow> EtcdRemoveMemberByID E peerClient (EtcdCallTimeout r) (mem_id member);
                      Close peerClient;
                      (case res of
                         Some e \<Rightarrow> ret (Inl (EWrap ''removing etcd member via peer'' (EExt e)))
                       | None \<Rightarrow> ret (Inr EtcdRemoved))
                    }
                  }))
        })
   }"

definition recordEtcdOutcome :: "string \<Rightarrow> unit rprog" where
  "recordEtcdOutcome outcome = do {
     emit (OMetric (etcdOutcomes outcome));
     if outcome = EtcdNotMember then ret ()
     else if outcome = EtcdLeft then event EventTypeNormal EventEtcdMemberLeft
     else if outcome = EtcdRemoved then event EventTypeNormal EventEtcdMemberRemoved
     else ret ()
   }"

text \<open>The end of \<open>ensureEtcdRemoved\<close>: stamp the outcome, then record it.\<close>

definition concludeEtcd :: "env \<Rightarrow> string \<Rightarrow> (go_error + Result) rprog" where
  "concludeEtcd E outcome = do {
     res \<leftarrow> stampPhase E EtcdAnnotation outcome;
     (case res of
        Inl err \<Rightarrow> ret (Inl err)
      | Inr _ \<Rightarrow> do { recordEtcdOutcome outcome; ret (Inr ZeroResult) })
   }"

definition ensureEtcdRemoved :: "env \<Rightarrow> Reconciler \<Rightarrow> time \<Rightarrow> (go_error + Result) rprog" where
  "ensureEtcdRemoved E r observedAt =
     (let deadline = observedAt + EtcdTimeout r
      in do {
        res \<leftarrow> tryEtcdRemoval E r;
        (case res of
           Inl err \<Rightarrow> do {
             t \<leftarrow> now E;
             if deadline < t then do {
               event EventTypeWarning EventEtcdMemberOrphaned;
               concludeEtcd E EtcdOrphaned
             } else ret (Inl (ETransient err))
           }
         | Inr outcome \<Rightarrow> concludeEtcd E outcome)
      })"

definition etcdPhase :: "env \<Rightarrow> Reconciler \<Rightarrow> time \<Rightarrow> bool \<Rightarrow> (go_error + Result) rprog" where
  "etcdPhase E r observedAt clusterDel = do {
     m \<leftarrow> theMachine;
     if mhas (m_annotations m) EtcdAnnotation then ret (Inr ZeroResult)
     else if clusterDel then do {
       res \<leftarrow> stampPhase E EtcdAnnotation EtcdSkippedClusterDelete;
       (case res of
          Inl err \<Rightarrow> ret (Inl err)
        | Inr _ \<Rightarrow> do {
            event EventTypeNormal EventEtcdSkippedClusterDelete;
            emit (OMetric (etcdOutcomes EtcdSkippedClusterDelete));
            ret (Inr ZeroResult)
          })
     }
     else if \<not> IsControlPlane m then ret (Inr ZeroResult)
     else do {
       res \<leftarrow> serializeControlPlane E;
       (case res of
          Inl err \<Rightarrow> ret (Inl err)
        | Inr result \<Rightarrow>
            if \<not> IsZero result then ret (Inr result)
            else ensureEtcdRemoved E r observedAt)
     }
   }"

section \<open>The reset phase\<close>

definition resetRequest :: reset_request where
  "resetRequest =
     \<lparr>rr_graceful = False, rr_reboot = False,
      rr_wipe = [\<lparr>ps_label = ''STATE'', ps_wipe = True\<rparr>, \<lparr>ps_label = ''EPHEMERAL'', ps_wipe = True\<rparr>]\<rparr>"

definition tryReset :: "env \<Rightarrow> Reconciler \<Rightarrow> (go_error + string) rprog" where
  "tryReset E r = do {
     m \<leftarrow> theMachine;
     address \<leftarrow> resolveAddress E m;
     (case address of
        Inl err \<Rightarrow> ret (Inl err)
      | Inr addr \<Rightarrow>
          if addr = '''' then ret (Inr ResetSkippedNoAddress)
          else do {
            config \<leftarrow> Config E (CacheNamespace r) (clusterKeyFor m);
            (case config of
               Inl err \<Rightarrow> do {
                 event EventTypeWarning EventCredentialsMissing;
                 ret (Inl (EWrap ''loading talosconfig'' err))
               }
             | Inr cfg \<Rightarrow> do {
                 dialed \<leftarrow> TalosFactory E cfg addr;
                 (case dialed of
                    Inl e \<Rightarrow> ret (Inl (EExt e))
                  | Inr victimClient \<Rightarrow> do {
                      started \<leftarrow> now E;
                      res \<leftarrow> ResetGeneric E victimClient (ResetCallTimeout r) resetRequest;
                      (case res of
                         Some e \<Rightarrow> do {
                           Close victimClient;
                           ret (Inl (EWrap ''resetting node'' (EExt e)))
                         }
                       | None \<Rightarrow> do {
                           finished \<leftarrow> now E;
                           emit (OMetric (resetDuration (finished - started)));
                           Close victimClient;
                           ret (Inr ResetDone)
                         })
                    })
               })
          })
   }"

text \<open>The end of \<open>resetPhase\<close>: stamp the outcome, then record it.\<close>

definition concludeReset :: "env \<Rightarrow> string \<Rightarrow> (go_error + unit) rprog" where
  "concludeReset E outcome = do {
     res \<leftarrow> stampPhase E ResetAnnotation outcome;
     (case res of
        Inl err \<Rightarrow> ret (Inl err)
      | Inr _ \<Rightarrow> do {
          emit (OMetric (resetOutcomes outcome));
          (if outcome = ResetSkippedNoAddress then event EventTypeNormal EventResetSkipped else ret ());
          (if outcome = ResetDone then event EventTypeNormal EventResetSucceeded else ret ());
          ret (Inr ())
        })
   }"

definition resetPhase :: "env \<Rightarrow> Reconciler \<Rightarrow> time \<Rightarrow> (go_error + unit) rprog" where
  "resetPhase E r observedAt = do {
     m \<leftarrow> theMachine;
     if mhas (m_annotations m) ResetAnnotation then ret (Inr ())
     else (let deadline = observedAt + ResetTimeout r
           in do {
             res \<leftarrow> tryReset E r;
             (case res of
                Inl err \<Rightarrow> do {
                  t \<leftarrow> now E;
                  if \<not> deadline < t then ret (Inl (ETransient err))
                  else do {
                    event EventTypeWarning EventResetSkipped;
                    concludeReset E ResetSkippedTimeout
                  }
                }
              | Inr outcome \<Rightarrow> concludeReset E outcome)
           })
   }"

section \<open>Reconcile\<close>

text \<open>The late stamp at the start of \<open>reconcileDeleting\<close>: \<open>Inr False\<close> ends the reconcile.\<close>

definition lateStamp :: "env \<Rightarrow> Reconciler \<Rightarrow> (go_error + bool) rprog" where
  "lateStamp E r = do {
     m \<leftarrow> theMachine;
     if HasHook m then ret (Inr True)
     else if mhas (m_annotations m) ResetAnnotation then ret (Inr False)
     else if \<not> StampAllowed m then ret (Inr False)
     else do {
       res \<leftarrow> ensureHook E;
       (case res of
          Inl err \<Rightarrow> ret (Inl err)
        | Inr _ \<Rightarrow> do {
            res2 \<leftarrow> ensureCredentials E r;
            (case res2 of Inl err \<Rightarrow> ret (Inl err) | Inr _ \<Rightarrow> ret (Inr True))
          })
     }
   }"

text \<open>The two phases and the release, once the pre-terminate wait has been entered.\<close>

definition runPhases :: "env \<Rightarrow> Reconciler \<Rightarrow> (go_error + Result) rprog" where
  "runPhases E r = do {
     observed \<leftarrow> ensureObservedAt E;
     (case observed of
        Inl err \<Rightarrow> ret (Inl err)
      | Inr observedAt \<Rightarrow> do {
          del \<leftarrow> clusterDeleting E;
          (case del of
             Inl err \<Rightarrow> ret (Inl err)
           | Inr clusterDel \<Rightarrow> do {
               etcd \<leftarrow> etcdPhase E r observedAt clusterDel;
               (case etcd of
                  Inl err \<Rightarrow> ret (Inl err)
                | Inr result \<Rightarrow>
                    if \<not> IsZero result then ret (Inr result)
                    else do {
                      res \<leftarrow> resetPhase E r observedAt;
                      (case res of
                         Inl err \<Rightarrow> ret (Inl err)
                       | Inr _ \<Rightarrow> do {
                           rel \<leftarrow> release E;
                           (case rel of Inl err \<Rightarrow> ret (Inl err) | Inr _ \<Rightarrow> ret (Inr ZeroResult))
                         })
                    })
             })
        })
   }"

definition reconcileDeleting :: "env \<Rightarrow> Reconciler \<Rightarrow> (go_error + Result) rprog" where
  "reconcileDeleting E r = do {
     proceed \<leftarrow> lateStamp E r;
     (case proceed of
        Inl err \<Rightarrow> ret (Inl err)
      | Inr False \<Rightarrow> ret (Inr ZeroResult)
      | Inr True \<Rightarrow> do {
          m \<leftarrow> theMachine;
          if \<not> AtPreTerminate m then ret (Inr ZeroResult)
          else if HasOtherPreTerminateHooks m then ret (Inr \<lparr>RequeueAfter = hookWaitRequeue\<rparr>)
          else runPhases E r
        })
   }"

definition Reconcile :: "env \<Rightarrow> Reconciler \<Rightarrow> ObjectKey \<Rightarrow> (go_error + Result) rprog" where
  "Reconcile E r req = do {
     setMachine zeroMachine;
     res \<leftarrow> call (OGetMachine req) (\<lambda>h. get_machine E h req);
     (case res of
        Inl err \<Rightarrow> if IsNotFound err then ret (Inr ZeroResult) else ret (Inl (EApi err))
      | Inr m \<Rightarrow> do {
          setMachine m;
          if \<not> Qualifies m \<and> \<not> HasHook m then ret (Inr ZeroResult)
          else if m_deletionTimestamp m = None then do {
            normal \<leftarrow> reconcileNormal E r;
            (case normal of Inl err \<Rightarrow> ret (Inl err) | Inr _ \<Rightarrow> ret (Inr ZeroResult))
          }
          else reconcileDeleting E r
        })
   }"

lemmas talos_defs = TalosFactory_def NewTalosClient_call callServiceInfo_def realClient_defs

lemma run_theMachine [simp]: "run_state theMachine s = (machine s, s)"
  by (simp add: theMachine_def)

lemma run_setMachine [simp]: "run_state (setMachine m) s = ((), s\<lparr>machine := m\<rparr>)"
  by (simp add: setMachine_def)

lemma wp_theMachine [go_wp]: "wp theMachine Q s = Q (machine s) s"
  by (simp add: wp_def)

lemma wp_setMachine [go_wp]: "wp (setMachine m) Q s = Q () (s\<lparr>machine := m\<rparr>)"
  by (simp add: wp_def)

lemma emits_theMachine [go_effect]: "emits P theMachine"
  by (simp add: obeys_def emits_rel_def)

lemma emits_setMachine [go_effect]: "emits P (setMachine m)"
  by (simp add: obeys_def emits_rel_def)

lemma clusterKeyFor_annotations [simp]: "clusterKeyFor (m\<lparr>m_annotations := a\<rparr>) = clusterKeyFor m"
  by (simp add: clusterKeyFor_def)

end
