(* ===== verification/Reconciler_Effects.thy ===== *)
theory Reconciler_Effects
  imports Reconciler_Model
begin

text \<open>
  What each function of the reconciler can leave in the history, what it keeps of the Machine
  it holds, and its weakest preconditions: the lemmas the properties are assembled from.
\<close>

section \<open>The Machine in memory\<close>

text \<open>
  Only annotations ever change: every field but \<open>m_annotations\<close> is the one that was read.
\<close>

definition same_but_annotations :: "Machine \<Rightarrow> Machine \<Rightarrow> bool" where
  "same_but_annotations m m' = (m' = m\<lparr>m_annotations := m_annotations m'\<rparr>)"

lemma same_but_annotations_refl [simp]: "same_but_annotations m m"
  by (simp add: same_but_annotations_def)

lemma same_but_annotations_upd [simp]: "same_but_annotations m (m\<lparr>m_annotations := a\<rparr>)"
  by (simp add: same_but_annotations_def)

lemma same_but_annotations_trans:
  assumes "same_but_annotations m m'" and "same_but_annotations m' m''"
  shows "same_but_annotations m m''"
proof -
  have "m'' = m'\<lparr>m_annotations := m_annotations m''\<rparr>" and "m' = m\<lparr>m_annotations := m_annotations m'\<rparr>"
    using assms by (simp_all only: same_but_annotations_def)
  then have "m'' = m\<lparr>m_annotations := m_annotations m'\<rparr>\<lparr>m_annotations := m_annotations m''\<rparr>"
    by metis
  then show ?thesis by (simp add: same_but_annotations_def)
qed

definition same_rel :: "rstate \<Rightarrow> rstate \<Rightarrow> bool" where
  "same_rel s t = same_but_annotations (machine s) (machine t)"

interpretation same: effect same_rel
  by unfold_locales (auto simp: same_rel_def intro: same_but_annotations_trans)

definition keep_rel :: "rstate \<Rightarrow> rstate \<Rightarrow> bool" where
  "keep_rel s t = (machine t = machine s)"

abbreviation keeps_machine :: "'a rprog \<Rightarrow> bool" where
  "keeps_machine \<equiv> obeys keep_rel"

interpretation keep: effect keep_rel
  by unfold_locales (auto simp: keep_rel_def)

lemma keep_call: "keeps_machine (call mk f)"
  by (simp add: obeys_def keep_rel_def)

lemma keep_emit: "keeps_machine (emit x)"
  by (simp add: obeys_def keep_rel_def)

lemma keep_theMachine: "keeps_machine theMachine"
  by (simp add: obeys_def keep_rel_def)

lemmas keep_rules = keep.eff_rules keep_call keep_emit keep_theMachine

lemma keep_Ensure: "keeps_machine (Ensure E ns cluster)"
  unfolding Ensure_def by (intro keep_rules)

lemma keep_Config: "keeps_machine (Config E ns cluster)"
  unfolding Config_def by (intro keep_rules)

lemma keep_resolveAddress: "keeps_machine (resolveAddress E m)"
  unfolding resolveAddress_def hardwareAddress_def by (intro keep_rules)

lemma keep_TalosFactory: "keeps_machine (TalosFactory E cfg a)"
  unfolding TalosFactory_def NewTalosClient_call by (intro keep_rules)

lemma keep_probePeer: "keeps_machine (probePeer E r peer cfg)"
  unfolding probePeer_def callServiceInfo_def realClient_defs
  by (intro keep_rules keep_resolveAddress keep_TalosFactory)

lemma keep_probePeers: "keeps_machine (probePeers E r cfg peers)"
  by (induction peers) (simp_all, (intro keep_rules keep_probePeer | assumption)+)

lemma keep_listControlPlaneMachines: "keeps_machine (listControlPlaneMachines E m)"
  unfolding listControlPlaneMachines_def by (intro keep_rules)

lemma keep_findHealthyPeer: "keeps_machine (findHealthyPeer E r cfg)"
  unfolding findHealthyPeer_def
  by (intro keep_rules keep_probePeers keep_listControlPlaneMachines)

lemma keep_leaveViaVictim: "keeps_machine (leaveViaVictim E r cfg)"
  unfolding leaveViaVictim_def callServiceInfo_def realClient_defs
  by (intro keep_rules keep_resolveAddress keep_TalosFactory)

lemma keep_tryEtcdRemoval: "keeps_machine (tryEtcdRemoval E r)"
  unfolding tryEtcdRemoval_def event_def realClient_defs
  by (intro keep_rules keep_Config keep_findHealthyPeer keep_leaveViaVictim)

lemma keep_tryReset: "keeps_machine (tryReset E r)"
  unfolding tryReset_def event_def now_def realClient_defs
  by (intro keep_rules keep_Config keep_resolveAddress keep_TalosFactory)

lemma keep_serializeControlPlane: "keeps_machine (serializeControlPlane E)"
  unfolding serializeControlPlane_def
  by (intro keep_rules keep_listControlPlaneMachines)

lemma keep_clusterDeleting: "keeps_machine (clusterDeleting E)"
  unfolding clusterDeleting_def by (intro keep_rules)

lemma keep_ensureCredentials: "keeps_machine (ensureCredentials E r)"
  unfolding ensureCredentials_def event_def by (intro keep_rules keep_Ensure)

lemma keep_recordEtcdOutcome: "keeps_machine (recordEtcdOutcome out)"
  unfolding recordEtcdOutcome_def event_def by (intro keep_rules)

lemmas keep_ops = keep_Ensure keep_Config keep_resolveAddress keep_TalosFactory keep_probePeer
  keep_probePeers keep_listControlPlaneMachines keep_findHealthyPeer keep_leaveViaVictim
  keep_tryEtcdRemoval keep_tryReset keep_serializeControlPlane keep_clusterDeleting
  keep_ensureCredentials keep_recordEtcdOutcome

section \<open>The start of a reconcile\<close>

text \<open>The state once the Machine has been read.\<close>

definition fetched :: "rstate \<Rightarrow> ObjectKey \<Rightarrow> Machine \<Rightarrow> rstate" where
  "fetched s req m = s\<lparr>hist := hist s @ [OGetMachine req (Inr m)], machine := m\<rparr>"

lemma fetched_simps [simp]:
  "hist (fetched s req m) = hist s @ [OGetMachine req (Inr m)]" "machine (fetched s req m) = m"
  by (simp_all add: fetched_def)

lemma wp_ReconcileI:
  assumes "\<And>err. get_machine E (hist s) req = Inl err \<Longrightarrow>
      Q (if IsNotFound err then Inr ZeroResult else Inl (EApi err))
        (s\<lparr>machine := zeroMachine, hist := hist s @ [OGetMachine req (Inl err)]\<rparr>)"
    and "\<And>m. get_machine E (hist s) req = Inr m \<Longrightarrow> \<not> Qualifies m \<Longrightarrow> \<not> HasHook m \<Longrightarrow>
      Q (Inr ZeroResult) (fetched s req m)"
    and "\<And>m. get_machine E (hist s) req = Inr m \<Longrightarrow> Qualifies m \<or> HasHook m \<Longrightarrow>
      m_deletionTimestamp m = None \<Longrightarrow>
      wp (reconcileNormal E r) (\<lambda>res. Q (case res of Inl err \<Rightarrow> Inl err | Inr _ \<Rightarrow> Inr ZeroResult)) (fetched s req m)"
    and "\<And>m. get_machine E (hist s) req = Inr m \<Longrightarrow> Qualifies m \<or> HasHook m \<Longrightarrow>
      m_deletionTimestamp m \<noteq> None \<Longrightarrow> wp (reconcileDeleting E r) Q (fetched s req m)"
  shows "wp (Reconcile E r req) Q s"
proof (cases "get_machine E (hist s) req")
  case (Inl err)
  with assms(1) show ?thesis by (auto simp: Reconcile_def go_wp)
next
  case (Inr m)
  have ret_case: "wp (case x of Inl err \<Rightarrow> ret (Inl err) | Inr _ \<Rightarrow> ret (Inr ZeroResult)) Q =
      Q (case x of Inl err \<Rightarrow> Inl err | Inr _ \<Rightarrow> Inr ZeroResult)" for x :: "go_error + unit"
    by (rule ext) (simp add: go_wp split: sum.split)
  show ?thesis
    using assms(2-4) [OF Inr]
    by (simp add: Reconcile_def wp_bind wp_setMachine wp_call Inr ret_case wp_return fetched_def)

qed

section \<open>What stays away from the Talos nodes\<close>

lemmas talos_wrappers = event_def now_def talos_defs

lemma quiet_patchAnnotations [go_effect]: "emits (\<lambda>x. \<not> is_talos x) (patchAnnotations E f)"
  unfolding patchAnnotations_def by (intro go_effect) simp_all

lemma quiet_stampPhase [go_effect]: "emits (\<lambda>x. \<not> is_talos x) (stampPhase E k v)"
  unfolding stampPhase_def by (intro go_effect)

lemma quiet_ensureCredentials [go_effect]: "emits (\<lambda>x. \<not> is_talos x) (ensureCredentials E r)"
  unfolding ensureCredentials_def talos_wrappers
  by (intro go_effect) (auto elim: is_secret_io.elims)

lemma quiet_ensureHook [go_effect]: "emits (\<lambda>x. \<not> is_talos x) (ensureHook E)"
  unfolding ensureHook_def talos_wrappers by (intro go_effect) simp_all

lemma quiet_reconcileNormal [go_effect]: "emits (\<lambda>x. \<not> is_talos x) (reconcileNormal E r)"
  unfolding reconcileNormal_def by (intro go_effect)

lemma quiet_ensureObservedAt [go_effect]: "emits (\<lambda>x. \<not> is_talos x) (ensureObservedAt E)"
  unfolding ensureObservedAt_def talos_wrappers by (intro go_effect) simp_all

lemma quiet_clusterDeleting [go_effect]: "emits (\<lambda>x. \<not> is_talos x) (clusterDeleting E)"
  unfolding clusterDeleting_def by (intro go_effect) simp_all

lemma quiet_listControlPlaneMachines [go_effect]: "emits (\<lambda>x. \<not> is_talos x) (listControlPlaneMachines E m)"
  unfolding listControlPlaneMachines_def by (intro go_effect) simp_all

lemma quiet_serializeControlPlane [go_effect]: "emits (\<lambda>x. \<not> is_talos x) (serializeControlPlane E)"
  unfolding serializeControlPlane_def by (intro go_effect)

lemma quiet_recordEtcdOutcome [go_effect]: "emits (\<lambda>x. \<not> is_talos x) (recordEtcdOutcome out)"
  unfolding recordEtcdOutcome_def talos_wrappers by (intro go_effect) simp_all

lemma quiet_concludeEtcd [go_effect]: "emits (\<lambda>x. \<not> is_talos x) (concludeEtcd E out)"
  unfolding concludeEtcd_def by (intro go_effect)

lemma quiet_concludeReset [go_effect]: "emits (\<lambda>x. \<not> is_talos x) (concludeReset E out)"
  unfolding concludeReset_def talos_wrappers by (intro go_effect) simp_all

lemma quiet_release [go_effect]: "emits (\<lambda>x. \<not> is_talos x) (release E)"
  unfolding release_def talos_wrappers by (intro go_effect) simp_all

lemma quiet_lateStamp [go_effect]: "emits (\<lambda>x. \<not> is_talos x) (lateStamp E r)"
  unfolding lateStamp_def by (intro go_effect)

lemmas quiet_ops = quiet_patchAnnotations quiet_stampPhase quiet_ensureCredentials quiet_ensureHook
  quiet_reconcileNormal quiet_ensureObservedAt quiet_clusterDeleting quiet_listControlPlaneMachines
  quiet_serializeControlPlane quiet_recordEtcdOutcome quiet_concludeEtcd quiet_concludeReset
  quiet_release quiet_lateStamp

lemma not_talos [simp, dest]: "\<not> is_talos x \<Longrightarrow> \<not> is_etcd_op x" "\<not> is_talos x \<Longrightarrow> \<not> is_reset x"
  by (cases x; simp)+

lemma address_read_quiet [simp, dest]: "is_address_read x \<Longrightarrow> \<not> is_talos x"
  by (cases x) simp_all

lemma secret_read_quiet [simp, dest]: "is_secret_read x \<Longrightarrow> \<not> is_talos x"
  by (cases x) simp_all

text \<open>The etcd work never resets a node, the reset work never touches etcd.\<close>

fun is_version_or_reset :: "obs \<Rightarrow> bool" where
  "is_version_or_reset (OResetGeneric _ _ _ _) = True"
| "is_version_or_reset (OPatch _ _ _) = True"
| "is_version_or_reset (OGetMachine _ _) = True"
| "is_version_or_reset _ = False"

fun is_version_or_etcd :: "obs \<Rightarrow> bool" where
  "is_version_or_etcd (OPatch _ _ _) = True"
| "is_version_or_etcd (OGetMachine _ _) = True"
| "is_version_or_etcd x = is_etcd_op x"

lemma address_read_classes [simp, dest]:
  "is_address_read x \<Longrightarrow> \<not> is_version_or_reset x" "is_address_read x \<Longrightarrow> \<not> is_version_or_etcd x"
  by (cases x; simp)+

lemma secret_read_classes [simp, dest]:
  "is_secret_read x \<Longrightarrow> \<not> is_version_or_reset x" "is_secret_read x \<Longrightarrow> \<not> is_version_or_etcd x"
  by (cases x; simp)+

lemma etcd_only_listControlPlaneMachines:
  "emits (\<lambda>x. \<not> is_version_or_reset x) (listControlPlaneMachines E m)"
  unfolding listControlPlaneMachines_def by (intro go_effect) simp_all

lemma etcd_only_probePeer: "emits (\<lambda>x. \<not> is_version_or_reset x) (probePeer E r peer cfg)"
  unfolding probePeer_def talos_wrappers by (intro go_effect) simp_all

lemma etcd_only_probePeers: "emits (\<lambda>x. \<not> is_version_or_reset x) (probePeers E r cfg peers)"
  by (induction peers) (simp_all, (intro go_effect etcd_only_probePeer | assumption)+)

lemma etcd_only_findHealthyPeer: "emits (\<lambda>x. \<not> is_version_or_reset x) (findHealthyPeer E r cfg)"
  unfolding findHealthyPeer_def
  by (intro go_effect etcd_only_probePeers etcd_only_listControlPlaneMachines)

lemma etcd_only_leaveViaVictim: "emits (\<lambda>x. \<not> is_version_or_reset x) (leaveViaVictim E r cfg)"
  unfolding leaveViaVictim_def talos_wrappers by (intro go_effect) simp_all

lemma etcd_only_tryEtcdRemoval: "emits (\<lambda>x. \<not> is_version_or_reset x) (tryEtcdRemoval E r)"
  unfolding tryEtcdRemoval_def event_def realClient_defs
  by (intro go_effect etcd_only_findHealthyPeer etcd_only_leaveViaVictim) simp_all

lemma reset_only_tryReset: "emits (\<lambda>x. \<not> is_version_or_etcd x) (tryReset E r)"
  unfolding tryReset_def talos_wrappers by (intro go_effect) simp_all

section \<open>The rest of a teardown from each of its phases\<close>

abbreviation fromReset :: "env \<Rightarrow> Reconciler \<Rightarrow> time \<Rightarrow> (go_error + Result) rprog" where
  "fromReset E r at \<equiv> resetPhase E r at \<bind> (\<lambda>res. case res of Inl err \<Rightarrow> ret (Inl err)
     | Inr _ \<Rightarrow> release E \<bind> (\<lambda>rel. case rel of Inl err \<Rightarrow> ret (Inl err) | Inr _ \<Rightarrow> ret (Inr ZeroResult)))"

abbreviation fromEtcd :: "env \<Rightarrow> Reconciler \<Rightarrow> time \<Rightarrow> bool \<Rightarrow> (go_error + Result) rprog" where
  "fromEtcd E r at del \<equiv> etcdPhase E r at del \<bind> (\<lambda>etcd. case etcd of Inl err \<Rightarrow> ret (Inl err)
     | Inr result \<Rightarrow> if \<not> IsZero result then ret (Inr result) else fromReset E r at)"

abbreviation fromCluster :: "env \<Rightarrow> Reconciler \<Rightarrow> time \<Rightarrow> (go_error + Result) rprog" where
  "fromCluster E r at \<equiv> clusterDeleting E \<bind> (\<lambda>del. case del of Inl err \<Rightarrow> ret (Inl err)
     | Inr clusterDel \<Rightarrow> fromEtcd E r at clusterDel)"

end
