(* ===== verification/Reconciler_Frame.thy ===== *)
theory Reconciler_Frame
  imports Reconciler_Effects
begin

text \<open>
  Frame: of a Machine the controller writes annotations only, and of these only its own four keys
  and the hook annotations it owns by value.
\<close>

section \<open>The foreign part of an annotation map\<close>

text \<open>The annotations the controller may write: its own keys, and hook keys that carry its value.\<close>

definition own_annotation :: "string \<Rightarrow> string \<Rightarrow> bool" where
  "own_annotation k v =
     (k \<in> {HookAnnotation, ObservedAtAnnotation, EtcdAnnotation, ResetAnnotation} \<or>
      (HasPrefix k PreTerminateDeleteHookAnnotationPrefix \<and> v = HookValue))"

definition foreign_part :: "smap \<Rightarrow> string \<Rightarrow> string option" where
  "foreign_part ann k =
     (case map_of ann k of None \<Rightarrow> None | Some v \<Rightarrow> if own_annotation k v then None else Some v)"

lemma own_keys [simp]:
  "own_annotation HookAnnotation v" "own_annotation ObservedAtAnnotation v"
  "own_annotation EtcdAnnotation v" "own_annotation ResetAnnotation v"
  by (simp_all add: own_annotation_def)

lemma foreign_part_put:
  assumes "k \<in> {HookAnnotation, ObservedAtAnnotation, EtcdAnnotation, ResetAnnotation}"
  shows "foreign_part (mput k v ann) = foreign_part ann"
  using assms by (auto simp: foreign_part_def fun_eq_iff split: option.split)

lemma foreign_part_del:
  assumes "\<And>v. map_of ann k = Some v \<Longrightarrow> own_annotation k v"
  shows "foreign_part (mdel k ann) = foreign_part ann"
  using assms by (auto simp: foreign_part_def fun_eq_iff split: option.split)

lemma foreign_part_del_all:
  assumes "\<And>k v. k \<in> set ks \<Longrightarrow> map_of ann k = Some v \<Longrightarrow> own_annotation k v"
  shows "foreign_part (mdel_all ks ann) = foreign_part ann"
  using assms by (auto simp: foreign_part_def fun_eq_iff split: option.split)

text \<open>What the guards of the controller read of the annotations is foreign.\<close>

lemma foreign_part_leaving: "foreign_part ann EtcdLeavingAnnotation = map_of ann EtcdLeavingAnnotation"
  by (auto simp: foreign_part_def own_annotation_def split: option.split)

lemma HasOther_foreign:
  assumes "wf_machine m"
  shows "HasOtherPreTerminateHooks m \<longleftrightarrow>
     (\<exists>k. foreign_part (m_annotations m) k \<noteq> None \<and> HasPrefix k PreTerminateDeleteHookAnnotationPrefix)"
proof -
  have prefixed: "k \<noteq> ObservedAtAnnotation \<and> k \<noteq> EtcdAnnotation \<and> k \<noteq> ResetAnnotation"
    if "HasPrefix k PreTerminateDeleteHookAnnotationPrefix" for k
    using that bookkeeping_not_hook by blast
  show ?thesis
    unfolding HasOther_iff [OF assms]
    by (rule ex_cong1) (auto simp: foreign_part_def own_annotation_def dest: prefixed split: option.split)
qed

section \<open>The frame as a relation\<close>

text \<open>\<open>frame m m'\<close>: \<open>m'\<close> is \<open>m\<close> up to annotations of the controller.\<close>

definition frame :: "Machine \<Rightarrow> Machine \<Rightarrow> bool" where
  "frame m m' = (wf_machine m \<longrightarrow>
     wf_machine m' \<and> same_but_annotations m m' \<and>
     foreign_part (m_annotations m') = foreign_part (m_annotations m))"

lemma frame_refl [simp]: "frame m m"
  by (simp add: frame_def)

lemma frame_trans: "frame m m' \<Longrightarrow> frame m' m'' \<Longrightarrow> frame m m''"
  by (auto simp: frame_def intro: same_but_annotations_trans)

text \<open>Every patch, and the Machine in memory, stays in the frame.\<close>

fun patch_framed :: "obs list \<Rightarrow> obs \<Rightarrow> bool" where
  "patch_framed h (OPatch before after _) = frame before after"
| "patch_framed h _ = True"

definition frame_rel :: "rstate \<Rightarrow> rstate \<Rightarrow> bool" where
  "frame_rel s t =
     (frame (machine s) (machine t) \<and> just_rel patch_framed s t)"

interpretation frame: effect frame_rel
  by unfold_locales (auto simp: frame_rel_def just_rel_def intro: frame_trans)

abbreviation framed :: "'a rprog \<Rightarrow> bool" where
  "framed \<equiv> obeys frame_rel"

lemma frame_keep:
  assumes "keeps_machine m" and "emits (\<lambda>x. \<not> is_version x) m"
  shows "framed m"
proof -
  have "justifies patch_framed m"
    by (rule justifies_emits [OF assms(2)]) (case_tac x; simp)
  with assms(1) show ?thesis
    by (simp add: obeys_def frame_rel_def keep_rel_def)
qed

lemma wp_frame_patch:
  assumes "\<And>ann'. wf_machine (machine s) \<Longrightarrow> f (m_annotations (machine s)) = Some ann' \<Longrightarrow>
     wf_map ann' \<and> foreign_part ann' = foreign_part (m_annotations (machine s))"
  shows "wp (patchAnnotations E f) (\<lambda>_. frame_rel s) s"
proof -
  have "frame (machine s) ((machine s)\<lparr>m_annotations := ann'\<rparr>)" if "f (m_annotations (machine s)) = Some ann'" for ann'
    using assms [OF _ that] by (auto simp: frame_def wf_machine_def)
  then show ?thesis
    by (auto simp: patchAnnotations_def go_wp Let_def frame_rel_def just_rel_def split: option.split)
qed

lemma foreign_part_legacy:
  assumes "wf_machine m" and "ann = mput HookAnnotation v (m_annotations m) \<or> ann = mdel HookAnnotation (m_annotations m)"
  shows "foreign_part (mdel_all (legacyHookKeys m) ann) = foreign_part (m_annotations m)"
proof -
  have "foreign_part (mdel_all (legacyHookKeys m) ann) = foreign_part ann"
    using assms by (intro foreign_part_del_all) (auto simp: set_legacyHookKeys own_annotation_def split: if_splits)
  also have "\<dots> = foreign_part (m_annotations m)"
    using assms(2) by (auto intro!: foreign_part_put foreign_part_del)
  finally show ?thesis .
qed

section \<open>Every function of the reconciler\<close>

lemma emits_not_patch:
  "emits (\<lambda>x. \<not> is_version_or_reset x) m \<Longrightarrow> emits (\<lambda>x. \<not> is_version x) m"
  "emits (\<lambda>x. \<not> is_version_or_etcd x) m' \<Longrightarrow> emits (\<lambda>x. \<not> is_version x) m'"
  by (erule emits_mono, case_tac x; simp)
     (erule emits_mono, case_tac x; simp)

lemma no_patch_ops:
  "emits (\<lambda>x. \<not> is_version x) (event ty reason)"
  "emits (\<lambda>x. \<not> is_version x) (now E)"
  "emits (\<lambda>x. \<not> is_version x) (recordEtcdOutcome v)"
  "emits (\<lambda>x. \<not> is_version x) (emit (OMetric k))"
  "emits (\<lambda>x. \<not> is_version x) (clusterDeleting E)"
  "emits (\<lambda>x. \<not> is_version x) (listControlPlaneMachines E m)"
  "emits (\<lambda>x. \<not> is_version x) (serializeControlPlane E)"
  "emits (\<lambda>x. \<not> is_version x) (ensureCredentials E r)"
  "emits (\<lambda>x. \<not> is_version x) (tryEtcdRemoval E r)"
  "emits (\<lambda>x. \<not> is_version x) (tryReset E r)"
proof -
  show "emits (\<lambda>x. \<not> is_version x) (ensureCredentials E r)"
    unfolding ensureCredentials_def event_def by (intro go_effect) (auto elim: is_secret_io.elims)
  show list: "emits (\<lambda>x. \<not> is_version x) (listControlPlaneMachines E m)" for m
    unfolding listControlPlaneMachines_def by (intro go_effect) simp_all
  show "emits (\<lambda>x. \<not> is_version x) (serializeControlPlane E)"
    unfolding serializeControlPlane_def by (intro go_effect list)
  show "emits (\<lambda>x. \<not> is_version x) (tryEtcdRemoval E r)"
    by (rule emits_not_patch(1)) (rule etcd_only_tryEtcdRemoval)
  show "emits (\<lambda>x. \<not> is_version x) (tryReset E r)"
    by (rule emits_not_patch(2)) (rule reset_only_tryReset)
qed (unfold event_def now_def recordEtcdOutcome_def clusterDeleting_def, (intro go_effect; simp)+)

lemma keep_event: "keeps_machine (event ty reason)"
  unfolding event_def by (rule keep_emit)

lemma keep_now: "keeps_machine (now E)"
  unfolding now_def by (rule keep_call)

lemmas keep_all = keep_rules keep_ops keep_event keep_now
lemmas no_patch_all = emits.eff_rules no_patch_ops

lemma frame_stampPhase:
  "k \<in> {HookAnnotation, ObservedAtAnnotation, EtcdAnnotation, ResetAnnotation} \<Longrightarrow> framed (stampPhase E k v)"
  unfolding stampPhase_def
  by (rule obeysI, rule wp_frame_patch) (auto simp: foreign_part_put wf_machine_def split: if_splits)

lemma frame_ensureHook: "framed (ensureHook E)"
proof (rule obeysI)
  fix s :: rstate
  have cont: "framed (case res of Inl err \<Rightarrow> ret (Inl err)
      | Inr _ \<Rightarrow> event EventTypeNormal EventHookStamped \<bind> (\<lambda>_. ret (Inr ())))" for res :: "go_error + unit"
    by (intro frame.eff_rules frame_keep keep_all no_patch_all)
  have "wp (patchAnnotations E (\<lambda>ann. Some (mdel_all (legacyHookKeys (machine s)) (mput HookAnnotation HookValue ann))))
      (\<lambda>_. frame_rel s) s"
    by (rule wp_frame_patch) (auto intro!: foreign_part_legacy wf_map_mdel_all dest: wf_machine_annotations)
  from frame.eff_wp_bind [OF this cont]
  show "wp (ensureHook E) (\<lambda>_. frame_rel s) s"
    by (simp add: ensureHook_def wp_bind [of theMachine] wp_theMachine wp_return frame.refl_eff)
qed

lemma frame_release: "framed (release E)"
proof (rule obeysI)
  fix s :: rstate
  have cont: "framed (case res of Inl err \<Rightarrow> ret (Inl err)
      | Inr _ \<Rightarrow> event EventTypeNormal EventTeardownComplete \<bind> (\<lambda>_. emit (OMetric machinesCompleted) \<bind> (\<lambda>_. ret (Inr ()))))"
    for res :: "go_error + unit"
    by (intro frame.eff_rules frame_keep keep_all no_patch_all)
  have "wp (patchAnnotations E (\<lambda>ann. Some (mdel_all (legacyHookKeys (machine s)) (mdel HookAnnotation ann))))
      (\<lambda>_. frame_rel s) s"
    by (rule wp_frame_patch) (auto intro!: foreign_part_legacy wf_map_mdel_all dest: wf_machine_annotations)
  from frame.eff_wp_bind [OF this cont]
  show "wp (release E) (\<lambda>_. frame_rel s) s"
    by (simp add: release_def wp_bind [of theMachine] wp_theMachine wp_return frame.refl_eff)
qed

lemma frame_ensureObservedAt: "framed (ensureObservedAt E)"
proof -
  have "framed (patchAnnotations E (\<lambda>ann. Some (mput ObservedAtAnnotation v ann)))" for v
    by (rule obeysI, rule wp_frame_patch) (auto simp: foreign_part_put wf_machine_def)
  then show ?thesis
    unfolding ensureObservedAt_def
    by (intro frame.eff_rules frame_keep [OF keep_theMachine emits_theMachine]
        frame_keep [OF keep_now no_patch_ops(2)])
qed

lemmas frame_quiet = frame_keep [OF keep_theMachine emits_theMachine]
  frame_keep [OF keep_event no_patch_ops(1)] frame_keep [OF keep_now no_patch_ops(2)]
  frame_keep [OF keep_recordEtcdOutcome no_patch_ops(3)] frame_keep [OF keep_emit no_patch_ops(4)]
  frame_keep [OF keep_clusterDeleting no_patch_ops(5)]
  frame_keep [OF keep_serializeControlPlane no_patch_ops(7)]
  frame_keep [OF keep_ensureCredentials no_patch_ops(8)]
  frame_keep [OF keep_tryEtcdRemoval no_patch_ops(9)] frame_keep [OF keep_tryReset no_patch_ops(10)]

lemmas frame_rules = frame.eff_rules frame_quiet frame_ensureHook frame_release frame_ensureObservedAt

lemma frame_phases: "framed (etcdPhase E r at del)" "framed (resetPhase E r at)"
proof -
  show "framed (etcdPhase E r at del)"
    unfolding etcdPhase_def ensureEtcdRemoved_def concludeEtcd_def
    by (intro frame_rules frame_stampPhase) simp_all
  show "framed (resetPhase E r at)"
    unfolding resetPhase_def concludeReset_def
    by (intro frame_rules frame_stampPhase) simp_all
qed

lemma frame_lateStamp: "framed (lateStamp E r)"
  unfolding lateStamp_def by (intro frame_rules)

lemma frame_runPhases: "framed (runPhases E r)"
  unfolding runPhases_def by (intro frame_rules frame_phases)

lemma frame_reconcile: "framed (reconcileNormal E r)" "framed (reconcileDeleting E r)"
  unfolding reconcileNormal_def reconcileDeleting_def
  by (intro frame_rules frame_lateStamp frame_runPhases)+

end
