(* ===== verification/Teardown_Lifecycle.thy ===== *)
theory Teardown_Lifecycle
  imports Reconciler_Model
begin

text \<open>
  The contract of the teardown of one Machine (as \<open>docs/talos-machine-teardown.md\<close> and the comments of
  \<open>teardown.go\<close> describe it), apart from how it is carried out: what the controller has recorded on the Machine,
  and the steps by which these records may change. \<open>Reconciler_Release\<close> shows that every patch of the controller is
  such a step.
\<close>

section \<open>Records of a teardown and its steps\<close>

record lifecycle =
  lc_deleting :: bool
  lc_hook :: bool
  lc_observed :: "time option"
  lc_etcd :: "string option"
  lc_reset :: "string option"

definition etcd_outcomes :: "string set" where
  "etcd_outcomes = {EtcdNotMember, EtcdLeft, EtcdRemoved, EtcdOrphaned, EtcdSkippedClusterDelete}"

definition reset_outcomes :: "string set" where
  "reset_outcomes = {ResetDone, ResetSkippedTimeout, ResetSkippedNoAddress}"

text \<open>
  The steps of the controller, for a control-plane Machine (\<open>cp\<close>) or a worker: stamp the hook (never again once a deletion
  has been torn down), start the clock of the deadlines, conclude the etcd phase, conclude the reset
  (after etcd), and release.
\<close>

inductive advances :: "bool \<Rightarrow> lifecycle \<Rightarrow> lifecycle \<Rightarrow> bool" for cp where
  Stamp: "\<not> lc_hook p \<Longrightarrow> \<not> lc_deleting p \<or> lc_reset p = None \<Longrightarrow> advances cp p (p\<lparr>lc_hook := True\<rparr>)"
| Observe: "lc_deleting p \<Longrightarrow> lc_hook p \<Longrightarrow> lc_observed p = None \<Longrightarrow> advances cp p (p\<lparr>lc_observed := Some t\<rparr>)"
| Etcd: "lc_deleting p \<Longrightarrow> lc_hook p \<Longrightarrow> lc_etcd p = None \<Longrightarrow> v \<in> etcd_outcomes \<Longrightarrow>
    cp \<or> v = EtcdSkippedClusterDelete \<Longrightarrow> advances cp p (p\<lparr>lc_etcd := Some v\<rparr>)"
| Reset: "lc_deleting p \<Longrightarrow> lc_hook p \<Longrightarrow> lc_reset p = None \<Longrightarrow> v \<in> reset_outcomes \<Longrightarrow>
    (cp \<longrightarrow> lc_etcd p \<noteq> None) \<Longrightarrow> advances cp p (p\<lparr>lc_reset := Some v\<rparr>)"
| Release: "lc_deleting p \<Longrightarrow> lc_hook p \<Longrightarrow> lc_reset p \<noteq> None \<Longrightarrow>
    (cp \<longrightarrow> lc_etcd p \<noteq> None) \<Longrightarrow> advances cp p (p\<lparr>lc_hook := False\<rparr>)"

text \<open>The one step of the user: to delete the Machine, for good.\<close>

inductive lifecycle_step :: "bool \<Rightarrow> lifecycle \<Rightarrow> lifecycle \<Rightarrow> bool" for cp where
  Delete: "\<not> lc_deleting p \<Longrightarrow> lifecycle_step cp p (p\<lparr>lc_deleting := True\<rparr>)"
| Advance: "advances cp p p' \<Longrightarrow> lifecycle_step cp p p'"

definition released :: "lifecycle \<Rightarrow> bool" where
  "released p = (lc_deleting p \<and> \<not> lc_hook p \<and> lc_reset p \<noteq> None)"

text \<open>The steps a Machine has before it at most.\<close>

definition steps_ahead :: "lifecycle \<Rightarrow> nat" where
  "steps_ahead p =
     (if lc_deleting p then 0 else 1) +
     (if lc_hook p then 1 else if lc_deleting p \<and> lc_reset p \<noteq> None then 0 else 2) +
     (if lc_observed p = None then 1 else 0) + (if lc_etcd p = None then 1 else 0) + (if lc_reset p = None then 1 else 0)"

inductive_cases advancesE: "advances cp p p'"

lemma advances_falls: "advances cp p p' \<Longrightarrow> steps_ahead p' < steps_ahead p"
  by (erule advancesE) (auto simp: steps_ahead_def)

lemma advances_keeps_deleting: "advances cp p p' \<Longrightarrow> lc_deleting p' = lc_deleting p"
  by (erule advancesE) auto

lemma lifecycle_falls: "lifecycle_step cp p p' \<Longrightarrow> steps_ahead p' < steps_ahead p"
  by (erule lifecycle_step.cases) (auto simp: steps_ahead_def [of "_\<lparr>lc_deleting := True\<rparr>"]
      steps_ahead_def [of p] dest: advances_falls)

lemma lifecycle_moves:
  assumes "\<not> released p"
  shows "\<exists>p'. lifecycle_step cp p p'"
proof (cases "lc_deleting p \<and> lc_hook p")
  case True
  have e: "EtcdSkippedClusterDelete \<in> etcd_outcomes" "ResetDone \<in> reset_outcomes"
    by (simp_all add: etcd_outcomes_def reset_outcomes_def)
  show ?thesis
  proof (cases "lc_etcd p = None")
    case None: True
    with True e show ?thesis by (blast intro: lifecycle_step.Advance advances.Etcd)
  next
    case Some: False
    with True e show ?thesis
      by (cases "lc_reset p = None") (blast intro: lifecycle_step.Advance advances.Reset advances.Release)+
  qed
next
  case False
  with assms show ?thesis
    by (cases "lc_deleting p") (auto simp: released_def intro: lifecycle_step.intros advances.Stamp)
qed

text \<open>No Machine is stuck before its release, and every teardown takes a bounded number of steps.\<close>

interpretation teardown: draining "lifecycle_step cp" "\<lambda>_. True" steps_ahead released
  for cp
  by unfold_locales (simp_all add: lifecycle_falls lifecycle_moves)

lemma steps_ahead_le: "steps_ahead p \<le> 5 + (if lc_deleting p then 0 else 1)"
  by (simp add: steps_ahead_def)

section \<open>The lifecycle under stale reads\<close>

text \<open>
  A reader behind a cache may work on an older version. The state is the set of versions that may be in a
  reader's hands and the live records. A patch carries the difference between the version it started from and its
  result (\<open>client.MergeFrom\<close>); the API server writes this difference over the live records.
\<close>

definition overwrite :: "lifecycle \<Rightarrow> lifecycle \<Rightarrow> lifecycle \<Rightarrow> lifecycle" where
  "overwrite q q' p =
     \<lparr>lc_deleting = lc_deleting p,
      lc_hook = (if lc_hook q = lc_hook q' then lc_hook p else lc_hook q'),
      lc_observed = (if lc_observed q = lc_observed q' then lc_observed p else lc_observed q'),
      lc_etcd = (if lc_etcd q = lc_etcd q' then lc_etcd p else lc_etcd q'),
      lc_reset = (if lc_reset q = lc_reset q' then lc_reset p else lc_reset q')\<rparr>"

inductive lagging :: "lifecycle set \<times> lifecycle \<Rightarrow> lifecycle set \<times> lifecycle \<Rightarrow> bool" where
  Read: "q \<in> S \<Longrightarrow> lagging (S, p) (insert (q\<lparr>lc_deleting := d\<rparr>) S, p\<lparr>lc_deleting := lc_deleting p \<or> d\<rparr>)"
| Write: "q \<in> S \<Longrightarrow> advances cp q q' \<Longrightarrow> lagging (S, p) ({q', overwrite q q' p} \<union> S, overwrite q q' p)"

text \<open>Without lag a patch is a step of the lifecycle.\<close>

lemma overwrite_fresh: "lc_deleting q' = lc_deleting q \<Longrightarrow> overwrite q q' q = q'"
  by (cases q; cases q') (auto simp: overwrite_def)

text \<open>What any version has concluded, the live records have concluded; a deletion that was shown is one.\<close>

definition upheld :: "lifecycle set \<Rightarrow> lifecycle \<Rightarrow> bool" where
  "upheld S p = (\<forall>q \<in> S. (lc_reset q \<noteq> None \<longrightarrow> lc_reset p \<noteq> None) \<and> (lc_etcd q \<noteq> None \<longrightarrow> lc_etcd p \<noteq> None) \<and>
     (lc_deleting q \<longrightarrow> lc_deleting p))"

lemma advances_settles: "advances cp q q' \<Longrightarrow>
    (lc_reset q \<noteq> None \<longrightarrow> lc_reset q' \<noteq> None) \<and> (lc_etcd q \<noteq> None \<longrightarrow> lc_etcd q' \<noteq> None)"
  by (erule advancesE) auto

lemma keep_or_set:
  fixes a a' b :: "'v option"
  assumes "a \<noteq> None \<Longrightarrow> a' \<noteq> None" and "a \<noteq> None \<Longrightarrow> b \<noteq> None"
  shows "a' \<noteq> None \<Longrightarrow> (if a = a' then b else a') \<noteq> None" "b \<noteq> None \<Longrightarrow> (if a = a' then b else a') \<noteq> None"
  using assms by (cases a; cases a'; simp)+

lemma overwrite_settles:
  assumes "upheld S p" and "q \<in> S" and "advances cp q q'"
  shows "upheld ({q', overwrite q q' p} \<union> S) (overwrite q q' p)"
proof -
  have q: "lc_reset q \<noteq> None \<Longrightarrow> lc_reset p \<noteq> None" "lc_etcd q \<noteq> None \<Longrightarrow> lc_etcd p \<noteq> None"
    "lc_deleting q' \<Longrightarrow> lc_deleting p"
    using assms(1,2) advances_keeps_deleting [OF assms(3)] unfolding upheld_def by simp_all
  have q': "lc_reset q \<noteq> None \<Longrightarrow> lc_reset q' \<noteq> None" "lc_etcd q \<noteq> None \<Longrightarrow> lc_etcd q' \<noteq> None"
    using advances_settles [OF assms(3)] by blast+
  let ?p = "overwrite q q' p"
  have new: "lc_reset ?p = (if lc_reset q = lc_reset q' then lc_reset p else lc_reset q')"
    "lc_etcd ?p = (if lc_etcd q = lc_etcd q' then lc_etcd p else lc_etcd q')" "lc_deleting ?p = lc_deleting p"
    by (simp_all add: overwrite_def)
  have "lc_reset q' \<noteq> None \<Longrightarrow> lc_reset ?p \<noteq> None" "lc_reset p \<noteq> None \<Longrightarrow> lc_reset ?p \<noteq> None"
    unfolding new by (rule keep_or_set [OF q'(1) q(1)]; assumption)+
  moreover have "lc_etcd q' \<noteq> None \<Longrightarrow> lc_etcd ?p \<noteq> None" "lc_etcd p \<noteq> None \<Longrightarrow> lc_etcd ?p \<noteq> None"
    unfolding new by (rule keep_or_set [OF q'(2) q(2)]; assumption)+
  ultimately have "upheld {q'} ?p" "\<And>q. upheld {q} p \<Longrightarrow> upheld {q} ?p"
    using q(3) new(3) unfolding upheld_def by simp_all
  moreover have each: "upheld T x = (\<forall>q \<in> T. upheld {q} x)" for T x
    by (simp add: upheld_def)
  moreover have "upheld {?p} ?p"
    by (simp add: upheld_def)
  ultimately show ?thesis
    using assms(1) unfolding each [of S p] each [of "{q', ?p} \<union> S" ?p] by blast
qed

lemma lagging_upheld: "lagging\<^sup>*\<^sup>* (S, p) (S', p') \<Longrightarrow> upheld S p \<Longrightarrow> upheld S' p'"
proof (induction rule: rtranclp_induct2)
  case (step S1 p1 S2 p2)
  then have inv: "upheld S1 p1" by blast
  from step(2) show ?case
  proof (cases rule: lagging.cases)
    case (Write q cp q')
    with overwrite_settles [OF inv] show ?thesis by simp
  qed (use inv in \<open>auto simp: upheld_def\<close>)
qed

text \<open>A patch that takes the hook off finds its conclusions in the live records, stale though its version may be.\<close>

lemma upheld_release:
  assumes "upheld S p" and "q \<in> S" and "advances cp q q'" and "lc_hook q" and "\<not> lc_hook q'"
  shows "lc_deleting p \<and> lc_reset p \<noteq> None \<and> (cp \<longrightarrow> lc_etcd p \<noteq> None)"
  using assms(3-5) assms(1,2) by (cases rule: advances.cases) (auto simp: upheld_def)

section \<open>The records of a Machine\<close>

definition view :: "env \<Rightarrow> Machine \<Rightarrow> lifecycle" where
  "view E m =
     \<lparr>lc_deleting = (m_deletionTimestamp m \<noteq> None), lc_hook = HasHook m, lc_observed = recordedObservedAt E m,
      lc_etcd = map_of (m_annotations m) EtcdAnnotation, lc_reset = map_of (m_annotations m) ResetAnnotation\<rparr>"

text \<open>The records that a set of annotations holds.\<close>

definition records_of :: "env \<Rightarrow> bool \<Rightarrow> (string \<rightharpoonup> string) \<Rightarrow> lifecycle" where
  "records_of E deleting marks =
     \<lparr>lc_deleting = deleting, lc_hook = (marks HookAnnotation \<noteq> None),
      lc_observed = (case marks ObservedAtAnnotation of None \<Rightarrow> None | Some v \<Rightarrow> time_Parse (lenient E) v),
      lc_etcd = marks EtcdAnnotation, lc_reset = marks ResetAnnotation\<rparr>"

lemma view_records: "view E m = records_of E (m_deletionTimestamp m \<noteq> None) (map_of (m_annotations m))"
  by (simp add: view_def records_of_def HasHook_def mhas_def recordedObservedAt_def)

text \<open>The clock shows years that RFC 3339 can write.\<close>

definition sane_clock :: "env \<Rightarrow> bool" where
  "sane_clock E = (\<forall>h. in_calendar (now_at E h))"

text \<open>A record that does not change is not written: its annotation keeps its value.\<close>

definition writes_records :: "env \<Rightarrow> Machine \<Rightarrow> Machine \<Rightarrow> bool" where
  "writes_records E m m' =
     ((HasHook m = HasHook m' \<longrightarrow> map_of (m_annotations m) HookAnnotation = map_of (m_annotations m') HookAnnotation) \<and>
      (recordedObservedAt E m = recordedObservedAt E m' \<longrightarrow>
         map_of (m_annotations m) ObservedAtAnnotation = map_of (m_annotations m') ObservedAtAnnotation))"

definition protocol_step :: "env \<Rightarrow> Machine \<Rightarrow> Machine \<Rightarrow> bool" where
  "protocol_step E m m' =
     (sane_clock E \<longrightarrow> advances (IsControlPlane m) (view E m) (view E m') \<and> writes_records E m m')"

lemma recordedObservedAt_upd [simp]:
  "recordedObservedAt E (m\<lparr>m_annotations := a\<rparr>) =
     (case map_of a ObservedAtAnnotation of None \<Rightarrow> None | Some v \<Rightarrow> time_Parse (lenient E) v)"
  by (simp add: recordedObservedAt_def)

lemma protocol_hook:
  assumes "\<not> HasHook m" and "m_deletionTimestamp m = None \<or> \<not> mhas (m_annotations m) ResetAnnotation"
  shows "protocol_step E m (m\<lparr>m_annotations := mdel_all (legacyHookKeys m) (mput HookAnnotation v (m_annotations m))\<rparr>)"
proof -
  have "advances cp (view E m) ((view E m)\<lparr>lc_hook := True\<rparr>)" for cp
    using assms by (intro advances.Stamp) (auto simp: view_def mhas_def)
  then show ?thesis using assms by (simp add: protocol_step_def writes_records_def view_def recordedObservedAt_def HasHook_def mhas_def)
qed

lemma protocol_observe:
  assumes "HasHook m" and "m_deletionTimestamp m \<noteq> None" and "recordedObservedAt E m = None" and "t = now_at E h"
  shows "protocol_step E m (m\<lparr>m_annotations := mput ObservedAtAnnotation (time_Format (time_Truncate t)) (m_annotations m)\<rparr>)"
proof -
  have "advances cp (view E m) ((view E m)\<lparr>lc_observed := Some (time_Truncate t)\<rparr>)" for cp
    using assms by (intro advances.Observe) (auto simp: view_def)
  then show ?thesis
    using assms(1,3,4) by (simp add: protocol_step_def writes_records_def view_def sane_clock_def time_Parse_Format HasHook_def)
qed

lemma protocol_etcd:
  assumes "HasHook m" and "m_deletionTimestamp m \<noteq> None" and "\<not> mhas (m_annotations m) EtcdAnnotation"
    and "v \<in> etcd_outcomes" and "IsControlPlane m \<or> v = EtcdSkippedClusterDelete"
  shows "protocol_step E m (m\<lparr>m_annotations := mput EtcdAnnotation v (m_annotations m)\<rparr>)"
proof -
  have "advances (IsControlPlane m) (view E m) ((view E m)\<lparr>lc_etcd := Some v\<rparr>)"
    using assms by (intro advances.Etcd) (auto simp: view_def mhas_def)
  then show ?thesis
    using assms(1) by (simp add: protocol_step_def writes_records_def view_def recordedObservedAt_def HasHook_def mhas_def)
qed

lemma protocol_reset:
  assumes "HasHook m" and "m_deletionTimestamp m \<noteq> None" and "\<not> mhas (m_annotations m) ResetAnnotation"
    and "v \<in> reset_outcomes" and "IsControlPlane m \<longrightarrow> mhas (m_annotations m) EtcdAnnotation"
  shows "protocol_step E m (m\<lparr>m_annotations := mput ResetAnnotation v (m_annotations m)\<rparr>)"
proof -
  have "advances (IsControlPlane m) (view E m) ((view E m)\<lparr>lc_reset := Some v\<rparr>)"
    using assms by (intro advances.Reset) (auto simp: view_def mhas_def)
  then show ?thesis
    using assms(1) by (simp add: protocol_step_def writes_records_def view_def recordedObservedAt_def HasHook_def mhas_def)
qed

lemma protocol_release:
  assumes "HasHook m" and "m_deletionTimestamp m \<noteq> None" and "mhas (m_annotations m) ResetAnnotation"
    and "IsControlPlane m \<longrightarrow> mhas (m_annotations m) EtcdAnnotation"
  shows "protocol_step E m (m\<lparr>m_annotations := mdel_all (legacyHookKeys m) (mdel HookAnnotation (m_annotations m))\<rparr>)"
proof -
  have "advances (IsControlPlane m) (view E m) ((view E m)\<lparr>lc_hook := False\<rparr>)"
    using assms by (intro advances.Release) (auto simp: view_def mhas_def)
  then show ?thesis
    using assms(1) by (simp add: protocol_step_def writes_records_def view_def recordedObservedAt_def HasHook_def mhas_def)
qed

end
