(* ===== verification/Reconciler_Release.thy ===== *)
theory Reconciler_Release
  imports Reconciler_Frame Teardown_Lifecycle
begin

text \<open>
  Patch discipline: every patch starts from the version of the Machine that the client showed or the API server
  accepted last, never from a refused one, and is a step of the teardown's lifecycle; and the hook is taken off a Machine only when the
  conclusion of the reset phase (and, for a control-plane Machine, of the etcd phase) has been accepted before.
\<close>

section \<open>Persisted annotations\<close>

text \<open>The API server is known to hold the annotation: it was read, or a patch with it succeeded.\<close>

fun shows_annotation :: "ObjectKey \<Rightarrow> string \<Rightarrow> string \<Rightarrow> obs \<Rightarrow> bool" where
  "shows_annotation key k v (OGetMachine _ (Inr m)) =
     (ObjectKeyFromObject m = key \<and> map_of (m_annotations m) k = Some v)"
| "shows_annotation key k v (OPatch _ m None) =
     (ObjectKeyFromObject m = key \<and> map_of (m_annotations m) k = Some v)"
| "shows_annotation key k v _ = False"

definition persisted :: "obs list \<Rightarrow> ObjectKey \<Rightarrow> string \<Rightarrow> string \<Rightarrow> bool" where
  "persisted h key k v = list_ex (shows_annotation key k v) h"

lemma persisted_append [simp]:
  "persisted (h @ h') key k v \<longleftrightarrow> persisted h key k v \<or> persisted h' key k v"
  by (simp add: persisted_def)

lemma persisted_Cons [simp]:
  "persisted (x # h) key k v \<longleftrightarrow> shows_annotation key k v x \<or> persisted h key k v"
  by (simp add: persisted_def)

lemma persisted_Nil [simp]: "\<not> persisted [] key k v"
  by (simp add: persisted_def)

definition concluded :: "string \<Rightarrow> Machine \<Rightarrow> obs list \<Rightarrow> bool" where
  "concluded k m h = (\<exists>v. map_of (m_annotations m) k = Some v \<and> persisted h (ObjectKeyFromObject m) k v)"

definition teardown_concluded :: "Machine \<Rightarrow> obs list \<Rightarrow> bool" where
  "teardown_concluded m h =
     (concluded ResetAnnotation m h \<and> (IsControlPlane m \<longrightarrow> concluded EtcdAnnotation m h))"

text \<open>The version of a Machine that was shown or accepted last; none once a patch has been refused.\<close>

fun sees :: "obs \<Rightarrow> Machine option \<Rightarrow> Machine option" where
  "sees (OGetMachine _ (Inr m)) _ = Some m"
| "sees (OPatch _ m None) _ = Some m"
| "sees (OPatch _ _ (Some _)) _ = None"
| "sees _ m = m"

definition held :: "obs list \<Rightarrow> Machine option" where
  "held h = fold sees h None"

lemma held_append [simp]: "held (h @ h') = fold sees h' (held h)"
  by (simp add: held_def)

lemma sees_other: "\<not> is_version x \<Longrightarrow> sees x m = m"
  by (cases x) simp_all

lemma fold_sees_other: "list_all (\<lambda>x. \<not> is_version x) xs \<Longrightarrow> fold sees xs m = m"
  by (induction xs) (simp_all add: sees_other)

text \<open>
  A patch is justified as a step of the lifecycle from the version held, and one
  that removes the hook by a concluded teardown.
\<close>

fun release_justified :: "env \<Rightarrow> obs list \<Rightarrow> obs \<Rightarrow> bool" where
  "release_justified E h (OPatch before after _) =
     (held h = Some before \<and> same_but_annotations before after \<and> protocol_step E before after \<and>
      (HasHook before \<and> \<not> HasHook after \<longrightarrow> teardown_concluded before h))"
| "release_justified E h _ = True"

section \<open>The invariant of one reconcile\<close>

definition synced :: "rstate \<Rightarrow> bool" where
  "synced s = (\<forall>k v. map_of (m_annotations (machine s)) k = Some v \<longrightarrow>
     persisted (hist s) (ObjectKeyFromObject (machine s)) k v)"

definition current :: "rstate \<Rightarrow> bool" where
  "current s = (held (hist s) = Some (machine s))"

lemma current_quiet [simp]:
  "list_all (\<lambda>x. \<not> is_version x) xs \<Longrightarrow> current (s\<lparr>hist := hist s @ xs\<rparr>) = current s"
  by (simp add: current_def fold_sees_other)

definition rel_inv :: "env \<Rightarrow> rstate \<Rightarrow> bool" where
  "rel_inv E s = (synced s \<and> current s \<and> justified (release_justified E) (hist s))"

text \<open>The Machine is being deleted and its hook holds the deletion.\<close>

definition working :: "Machine \<Rightarrow> bool" where
  "working m = (HasHook m \<and> m_deletionTimestamp m \<noteq> None)"

lemma synced_concluded: "synced s \<Longrightarrow> mhas (m_annotations (machine s)) k \<Longrightarrow> concluded k (machine s) (hist s)"
  by (auto simp: synced_def concluded_def mhas_def)

lemma not_patch_release_justified: "\<not> is_version x \<Longrightarrow> release_justified E h x"
  by (cases x) simp_all

text \<open>Work that does not patch keeps the invariant and the Machine.\<close>

lemma rel_inv_quiet:
  assumes "keeps_machine m" and "emits (\<lambda>x. \<not> is_version x) m" and "rel_inv E s"
  shows "wp m (\<lambda>_ t. rel_inv E t \<and> machine t = machine s) s"
proof (rule wpI)
  fix a t
  assume run: "run_state m s = (a, t)"
  have mach: "machine t = machine s"
    using obeysD [OF assms(1) run] by (simp add: keep_rel_def)
  obtain new where new: "hist t = hist s @ new" "list_all (\<lambda>x. \<not> is_version x) new"
    using obeysD [OF assms(2) run] by (auto simp: emits_rel_def)
  have "justifies (release_justified E) m"
    by (rule justifies_emits [OF assms(2)]) (rule not_patch_release_justified)
  from obeysD [OF this run] assms(3) have "justified (release_justified E) (hist t)"
    by (simp add: just_rel_def rel_inv_def)
  moreover have "current t"
    using assms(3) mach new by (simp add: rel_inv_def current_def fold_sees_other)
  ultimately show "rel_inv E t \<and> machine t = machine s"
    using assms(3) mach new(1) by (simp add: rel_inv_def synced_def)
qed

text \<open>A patch.\<close>

lemma rel_inv_patch:
  assumes "rel_inv E s"
    and "\<And>ann'. f (m_annotations (machine s)) = Some ann' \<Longrightarrow>
           protocol_step E (machine s) ((machine s)\<lparr>m_annotations := ann'\<rparr>)"
    and "\<And>ann'. f (m_annotations (machine s)) = Some ann' \<Longrightarrow>
           mhas (m_annotations (machine s)) HookAnnotation \<Longrightarrow> \<not> mhas ann' HookAnnotation \<Longrightarrow>
           teardown_concluded (machine s) (hist s)"
  shows "wp (patchAnnotations E f)
           (\<lambda>res t. justified (release_justified E) (hist t) \<and>
              same_but_annotations (machine s) (machine t) \<and>
              (res = Inr () \<longrightarrow> rel_inv E t \<and>
                 m_annotations (machine t) =
                   (case f (m_annotations (machine s)) of
                      None \<Rightarrow> m_annotations (machine s) | Some ann' \<Rightarrow> ann'))) s"
  using assms(1)
  by (auto simp: patchAnnotations_def go_wp Let_def rel_inv_def synced_def HasHook_def current_def
        teardown_concluded_def concluded_def
      dest: assms(2,3) split: option.split)

lemma rel_inv_stamp:
  assumes "rel_inv E s" and "v \<noteq> ''''" and "k \<noteq> HookAnnotation"
    and "protocol_step E (machine s) ((machine s)\<lparr>m_annotations := mput k v (m_annotations (machine s))\<rparr>)"
  shows "wp (stampPhase E k v)
           (\<lambda>res t. justified (release_justified E) (hist t) \<and>
              same_but_annotations (machine s) (machine t) \<and>
              (res = Inr () \<longrightarrow> rel_inv E t \<and> map_of (m_annotations (machine t)) k = Some v \<and>
                 (\<forall>k'. k' \<noteq> k \<longrightarrow> map_of (m_annotations (machine t)) k' = map_of (m_annotations (machine s)) k'))) s"
  unfolding stampPhase_def
  by (rule wp_mono [OF rel_inv_patch [OF assms(1)]])
     (use assms(2-4) in \<open>auto simp: mget_def split: if_splits option.splits\<close>)

section \<open>Outcomes\<close>

definition outcome_in :: "string set \<Rightarrow> go_error + string \<Rightarrow> bool" where
  "outcome_in S res = (\<forall>v. res = Inr v \<longrightarrow> v \<in> S)"

lemma outcome_in_simps [simp]: "outcome_in S (Inl e)" "outcome_in S (Inr v) = (v \<in> S)"
  by (simp_all add: outcome_in_def)

lemma outcome_tryEtcdRemoval:
  "yields (outcome_in {EtcdNotMember, EtcdLeft, EtcdRemoved}) (tryEtcdRemoval E r)"
  unfolding tryEtcdRemoval_def by (intro yields_rules) simp_all

lemma outcome_tryReset: "yields (outcome_in {ResetDone, ResetSkippedNoAddress}) (tryReset E r)"
  unfolding tryReset_def by (intro yields_rules) simp_all

lemma outcomes_nonempty [simp]:
  "EtcdNotMember \<noteq> ''''" "EtcdLeft \<noteq> ''''" "EtcdRemoved \<noteq> ''''" "EtcdOrphaned \<noteq> ''''"
  "EtcdSkippedClusterDelete \<noteq> ''''" "ResetDone \<noteq> ''''" "ResetSkippedTimeout \<noteq> ''''"
  "ResetSkippedNoAddress \<noteq> ''''"
  by (simp_all add: EtcdNotMember_def EtcdLeft_def EtcdRemoved_def EtcdOrphaned_def
      EtcdSkippedClusterDelete_def ResetDone_def ResetSkippedTimeout_def ResetSkippedNoAddress_def)

section \<open>The phases\<close>

text \<open>
  The contract of a phase: whatever happens the history stays justified and only annotations
  change; on success the invariant holds again, no annotation is lost, and the
  annotation \<open>k\<close> of the phase is there (where it is due).
\<close>

definition phase_ok :: "env \<Rightarrow> bool \<Rightarrow> string \<Rightarrow> bool \<Rightarrow> Machine \<Rightarrow> rstate \<Rightarrow> bool" where
  "phase_ok E ok k due m t =
     (justified (release_justified E) (hist t) \<and> same_but_annotations m (machine t) \<and>
      (ok \<longrightarrow> rel_inv E t \<and>
         (\<forall>k'. mhas (m_annotations m) k' \<longrightarrow> mhas (m_annotations (machine t)) k') \<and>
         (due \<longrightarrow> mhas (m_annotations (machine t)) k)))"

lemma phase_ok_quiet:
  assumes "keeps_machine m" and "emits (\<lambda>x. \<not> is_version x) m"
    and "phase_ok E True k due mach t"
  shows "wp m (\<lambda>_. phase_ok E ok k due mach) t"
  using rel_inv_quiet [OF assms(1,2), of E t] assms(3)
  by (auto simp: phase_ok_def rel_inv_def elim!: wp_mono)

lemma phase_stamp:
  assumes "rel_inv E s" and "v \<noteq> ''''" and "k \<noteq> HookAnnotation"
    and "protocol_step E (machine s) ((machine s)\<lparr>m_annotations := mput k v (m_annotations (machine s))\<rparr>)"
  shows "wp (stampPhase E k v) (\<lambda>res. phase_ok E (res = Inr ()) k due (machine s)) s"
  by (rule wp_mono [OF rel_inv_stamp [OF assms]]) (auto simp: phase_ok_def mhas_def)

text \<open>Passing over a step that does not patch.\<close>

lemma quiet_step_yields:
  assumes "yields P m" and "keeps_machine m" and "emits (\<lambda>x. \<not> is_version x) m" and "rel_inv E s"
    and "\<And>a t. P a \<Longrightarrow> rel_inv E t \<Longrightarrow> machine t = machine s \<Longrightarrow> wp (f a) Q t"
  shows "wp (State_Monad.bind m f) Q s"
  unfolding wp_bind
  by (rule wp_mono [OF wp_conj [OF yields_wp [OF assms(1)] rel_inv_quiet [OF assms(2-4)]]])
     (auto intro: assms(5))

lemmas quiet_step = quiet_step_yields [where P = "\<lambda>_. True", OF yields_any]

text \<open>Stamp an annotation, then do work that does not patch.\<close>

lemma phase_stamp_then:
  fixes m :: "(go_error + 'a) rprog"
  assumes "rel_inv E s" and "v \<noteq> ''''" and "k \<noteq> HookAnnotation"
    and "protocol_step E (machine s) ((machine s)\<lparr>m_annotations := mput k v (m_annotations (machine s))\<rparr>)"
    and "keeps_machine m" and "emits (\<lambda>x. \<not> is_version x) m"
  shows "wp (stampPhase E k v \<bind> (\<lambda>res. case res of Inl err \<Rightarrow> ret (Inl err) | Inr _ \<Rightarrow> m))
           (\<lambda>res. phase_ok E (\<not> isl res) k due (machine s)) s"
  unfolding wp_bind
proof (rule wp_mono [OF phase_stamp [OF assms(1-4), where due = due]])
  fix res :: "go_error + unit" and t
  assume "phase_ok E (res = Inr ()) k due (machine s) t"
  then show "wp (case res of Inl err \<Rightarrow> ret (Inl err) | Inr _ \<Rightarrow> m) (\<lambda>res. phase_ok E (\<not> isl res) k due (machine s)) t"
    using phase_ok_quiet [OF assms(5,6), of E k due "machine s" t True]
    by (cases res) (auto simp: go_wp phase_ok_def elim!: wp_mono)
qed

lemma outcome_nonempty: "v \<in> etcd_outcomes \<Longrightarrow> v \<noteq> ''''" "v \<in> reset_outcomes \<Longrightarrow> v \<noteq> ''''"
  by (auto simp: etcd_outcomes_def reset_outcomes_def simp del: outcomes_nonempty dest: outcomes_nonempty [THEN notE, OF sym])

lemma working_facts:
  assumes "working m"
  shows "HasHook m" "m_deletionTimestamp m \<noteq> None"
  using assms by (simp_all add: working_def)

lemma phase_concludeEtcd:
  assumes "rel_inv E s" and "v \<in> etcd_outcomes" and "working (machine s)" and "IsControlPlane (machine s)"
    and "\<not> mhas (m_annotations (machine s)) EtcdAnnotation"
  shows "wp (concludeEtcd E v) (\<lambda>res. phase_ok E (\<not> isl res) EtcdAnnotation due (machine s)) s"
  unfolding concludeEtcd_def
  by (rule phase_stamp_then [OF assms(1) outcome_nonempty(1) [OF assms(2)] _ protocol_etcd [OF working_facts]])
     (use assms in \<open>simp_all only: simp_thms keys_distinct not_False_eq_True\<close>, (intro keep_all no_patch_all)+)

lemma phase_concludeReset:
  assumes "rel_inv E s" and "v \<in> reset_outcomes" and "working (machine s)"
    and "\<not> mhas (m_annotations (machine s)) ResetAnnotation"
    and "IsControlPlane (machine s) \<longrightarrow> mhas (m_annotations (machine s)) EtcdAnnotation"
  shows "wp (concludeReset E v) (\<lambda>res. phase_ok E (\<not> isl res) ResetAnnotation due (machine s)) s"
  unfolding concludeReset_def
  by (rule phase_stamp_then [OF assms(1) outcome_nonempty(2) [OF assms(2)] _ protocol_reset [OF working_facts]])
     (use assms in \<open>simp_all only: simp_thms keys_distinct not_False_eq_True\<close>, (intro keep_all no_patch_all)+)

lemma phase_ensureEtcdRemoved:
  assumes "rel_inv E s" and "working (machine s)" and "IsControlPlane (machine s)"
    and "\<not> mhas (m_annotations (machine s)) EtcdAnnotation"
  shows "wp (ensureEtcdRemoved E r at) (\<lambda>res. phase_ok E (\<not> isl res) EtcdAnnotation due (machine s)) s"
  unfolding ensureEtcdRemoved_def Let_def
proof (rule quiet_step_yields [OF outcome_tryEtcdRemoval keep_tryEtcdRemoval _ assms(1)], goal_cases)
  case 1
  show ?case by (rule no_patch_ops)
next
  case (2 res t)
  have conclude: "wp (concludeEtcd E v) (\<lambda>res. phase_ok E (\<not> isl res) EtcdAnnotation due (machine s)) u"
    if "rel_inv E u" "machine u = machine s" "v \<in> etcd_outcomes" for u v
    using phase_concludeEtcd [OF that(1,3)] that assms by simp
  show ?case
  proof (cases res)
    case (Inl err)
    then show ?thesis
      using 2 by (auto simp: go_wp now_def event_def phase_ok_def rel_inv_def synced_def etcd_outcomes_def intro!: conclude)
  next
    case (Inr v)
    with 2 show ?thesis by (auto simp: etcd_outcomes_def intro!: conclude)
  qed
qed

lemma phase_ok_mono:
  "phase_ok E ok k due m t \<Longrightarrow> (ok' \<Longrightarrow> ok) \<Longrightarrow> (due' \<Longrightarrow> due) \<Longrightarrow> phase_ok E ok' k due' m t"
  by (auto simp: phase_ok_def)

lemma phase_ok_here:
  "rel_inv E s \<Longrightarrow> machine s = m \<Longrightarrow> (ok \<Longrightarrow> due \<Longrightarrow> mhas (m_annotations m) k) \<Longrightarrow> phase_ok E ok k due m s"
  by (auto simp: phase_ok_def rel_inv_def)

definition is_zero_ok :: "go_error + Result \<Rightarrow> bool" where
  "is_zero_ok res = (case res of Inl _ \<Rightarrow> False | Inr x \<Rightarrow> IsZero x)"

lemma is_zero_ok_simps [simp]: "\<not> is_zero_ok (Inl e)" "is_zero_ok (Inr x) = IsZero x"
  by (simp_all add: is_zero_ok_def)

lemma phase_etcdPhase:
  assumes "rel_inv E s" and "working (machine s)"
  shows "wp (etcdPhase E r at del)
           (\<lambda>res. phase_ok E (is_zero_ok res) EtcdAnnotation (IsControlPlane (machine s)) (machine s)) s"
proof -
  let ?Q = "\<lambda>res. phase_ok E (is_zero_ok res) EtcdAnnotation (IsControlPlane (machine s)) (machine s)"
  have weaken: "wp m ?Q t"
    if "wp m (\<lambda>res. phase_ok E (\<not> isl res) EtcdAnnotation True (machine s)) t" for m t
    using that by (rule wp_mono) (auto elim!: phase_ok_mono split: sum.splits simp: is_zero_ok_def)
  have skip: "wp (stampPhase E EtcdAnnotation EtcdSkippedClusterDelete \<bind>
       (\<lambda>res. case res of Inl err \<Rightarrow> ret (Inl err)
          | Inr _ \<Rightarrow> event EventTypeNormal EventEtcdSkippedClusterDelete \<bind>
              (\<lambda>_. emit (OMetric (etcdOutcomes EtcdSkippedClusterDelete)) \<bind> (\<lambda>_. ret (Inr ZeroResult))))) ?Q s"
    if "\<not> mhas (m_annotations (machine s)) EtcdAnnotation"
    by (intro weaken phase_stamp_then assms(1) protocol_etcd [OF working_facts [OF assms(2)] that])
       (simp_all only: etcd_outcomes_def insert_iff simp_thms outcomes_nonempty keys_distinct not_False_eq_True,
        (intro keep_all no_patch_all)+)
  have work: "wp (serializeControlPlane E \<bind>
       (\<lambda>res. case res of Inl err \<Rightarrow> ret (Inl err)
          | Inr result \<Rightarrow> if \<not> IsZero result then ret (Inr result) else ensureEtcdRemoved E r at)) ?Q s"
    if "IsControlPlane (machine s)" "\<not> mhas (m_annotations (machine s)) EtcdAnnotation"
  proof (rule quiet_step [OF keep_serializeControlPlane no_patch_ops(7) assms(1)], goal_cases)
    case (1 res t)
    have "wp (ensureEtcdRemoved E r at) ?Q t"
      using weaken [of "ensureEtcdRemoved E r at" t] phase_ensureEtcdRemoved [OF 1(2)] 1 that assms(2) by simp
    with 1 show ?case
      by (auto simp: go_wp split: sum.split intro!: phase_ok_here)
  qed
  show ?thesis
    unfolding etcdPhase_def wp_bind wp_theMachine
    using assms skip work by (auto simp: wp_return intro!: phase_ok_here)
qed

lemma phase_resetPhase:
  assumes "rel_inv E s" and "working (machine s)"
    and "IsControlPlane (machine s) \<longrightarrow> mhas (m_annotations (machine s)) EtcdAnnotation"
  shows "wp (resetPhase E r at) (\<lambda>res. phase_ok E (\<not> isl res) ResetAnnotation True (machine s)) s"
proof -
  have work: "wp (tryReset E r \<bind> (\<lambda>res. case res of
                Inl err \<Rightarrow> now E \<bind> (\<lambda>t. if \<not> at + ResetTimeout r < t then ret (Inl (ETransient err))
                  else event EventTypeWarning EventResetSkipped \<bind> (\<lambda>_. concludeReset E ResetSkippedTimeout))
              | Inr outcome \<Rightarrow> concludeReset E outcome))
            (\<lambda>res. phase_ok E (\<not> isl res) ResetAnnotation True (machine s)) s"
    if none: "\<not> mhas (m_annotations (machine s)) ResetAnnotation"
  proof (rule quiet_step_yields [OF outcome_tryReset keep_tryReset no_patch_ops(10) assms(1)], goal_cases)
    case (1 res t)
    have conclude: "wp (concludeReset E v) (\<lambda>res. phase_ok E (\<not> isl res) ResetAnnotation True (machine s)) u"
      if "rel_inv E u" "machine u = machine s" "v \<in> reset_outcomes" for u v
      using phase_concludeReset [OF that(1,3)] that none assms(2,3) by simp
    from 1 show ?case
      by (cases res) (auto simp: go_wp now_def event_def phase_ok_def rel_inv_def synced_def reset_outcomes_def
          intro!: conclude)
  qed
  show ?thesis
    unfolding resetPhase_def Let_def wp_bind wp_theMachine
    using assms work by (auto simp: wp_return wp_bind intro!: phase_ok_here)
qed

lemma phase_ensureObservedAt:
  assumes "rel_inv E s" and "working (machine s)"
  shows "wp (ensureObservedAt E) (\<lambda>res. phase_ok E (\<not> isl res) ObservedAtAnnotation False (machine s)) s"
proof -
  have patch: "wp (patchAnnotations E (\<lambda>ann. Some (mput ObservedAtAnnotation (time_Format (time_Truncate (now_at E h))) ann)))
      (\<lambda>res t. (res = Inr () \<longrightarrow> phase_ok E True ObservedAtAnnotation False (machine s) t) \<and>
               phase_ok E False ObservedAtAnnotation False (machine s) t) u"
    if "rel_inv E u" "machine u = machine s" "recordedObservedAt E (machine s) = None" for u h
    by (rule wp_mono [OF rel_inv_patch [OF that(1)]])
       (use that protocol_observe [OF working_facts [OF assms(2)] that(3) refl] in \<open>auto simp: phase_ok_def mhas_def\<close>)
  show ?thesis
    using assms(1) unfolding ensureObservedAt_def
    by (auto simp: go_wp now_def Let_def rel_inv_def synced_def phase_ok_here split: option.split sum.split
        intro!: wp_mono [OF patch])
qed

lemma phase_ok_working: "phase_ok E True k due m t \<Longrightarrow> working m \<Longrightarrow> working (machine t)"
  unfolding phase_ok_def working_def HasHook_def same_but_annotations_def
  by (metis Machine.select_convs(6) Machine.surjective Machine.update_convs(4))

section \<open>Release and the whole reconcile\<close>

lemma same_but_annotations_facts:
  assumes "same_but_annotations m m'"
  shows "IsControlPlane m' = IsControlPlane m" "ObjectKeyFromObject m' = ObjectKeyFromObject m"
    "m_deletionTimestamp m' = m_deletionTimestamp m" "deletingReason m' = deletingReason m"
    "clusterKeyFor m' = clusterKeyFor m" "Qualifies m' = Qualifies m"
    "m_namespace m' = m_namespace m" "m_name m' = m_name m"
proof -
  obtain a where "m' = m\<lparr>m_annotations := a\<rparr>"
    using assms by (auto simp: same_but_annotations_def)
  then show "IsControlPlane m' = IsControlPlane m" "ObjectKeyFromObject m' = ObjectKeyFromObject m"
    "m_deletionTimestamp m' = m_deletionTimestamp m" "deletingReason m' = deletingReason m"
    "clusterKeyFor m' = clusterKeyFor m" "Qualifies m' = Qualifies m"
    "m_namespace m' = m_namespace m" "m_name m' = m_name m"
    by (simp_all add: IsControlPlane_def deletingReason_def clusterKeyFor_def Qualifies_def)
qed

lemma concluded_mhas: "teardown_concluded m h \<Longrightarrow> mhas (m_annotations m) ResetAnnotation"
  "teardown_concluded m h \<Longrightarrow> IsControlPlane m \<longrightarrow> mhas (m_annotations m) EtcdAnnotation"
  by (auto simp: teardown_concluded_def concluded_def mhas_def)

lemma release_release:
  assumes "rel_inv E s" and "working (machine s)" and "teardown_concluded (machine s) (hist s)"
  shows "wp (release E) (\<lambda>_ t. justified (release_justified E) (hist t)) s"
  unfolding release_def wp_bind wp_theMachine wp_if wp_return
  using assms(1,3) protocol_release [OF working_facts [OF assms(2)] concluded_mhas [OF assms(3)]]
  by (auto simp: go_wp event_def rel_inv_def split: sum.split
      intro!: wp_mono [OF rel_inv_patch [OF assms(1)]])

lemma release_afterEtcd:
  assumes "rel_inv E s" and "working (machine s)"
    and "IsControlPlane (machine s) \<longrightarrow> mhas (m_annotations (machine s)) EtcdAnnotation"
  shows "wp (fromReset E r at)
          (\<lambda>_ t. justified (release_justified E) (hist t)) s"
  unfolding wp_bind
proof (rule wp_mono [OF phase_resetPhase [OF assms]], goal_cases)
  case (1 res t)
  show ?case
  proof (cases res)
    case (Inl e)
    with 1 show ?thesis by (simp add: go_wp phase_ok_def)
  next
    case (Inr u)
    with 1 assms(3) have t: "rel_inv E t" "teardown_concluded (machine t) (hist t)"
      by (auto simp: phase_ok_def teardown_concluded_def rel_inv_def
          same_but_annotations_facts intro!: synced_concluded)
    have "working (machine t)"
      using 1 Inr assms(2) by (auto intro: phase_ok_working)
    from Inr show ?thesis
      by (auto simp: go_wp split: sum.split intro!: wp_mono [OF release_release [OF t(1) \<open>working (machine t)\<close> t(2)]])
  qed
qed

lemma release_fromEtcd:
  assumes "rel_inv E s" and "working (machine s)"
  shows "wp (fromEtcd E r at del)
          (\<lambda>_ t. justified (release_justified E) (hist t)) s"
  unfolding wp_bind [of "etcdPhase E r at del"]
proof (rule wp_mono [OF phase_etcdPhase [OF assms]], goal_cases)
  case (1 res t)
  show ?case
  proof (cases "is_zero_ok res")
    case False
    with 1 show ?thesis by (cases res) (simp_all add: wp_return phase_ok_def)
  next
    case True
    with 1 assms(2) have "rel_inv E t" "working (machine t)"
      "IsControlPlane (machine t) \<longrightarrow> mhas (m_annotations (machine t)) EtcdAnnotation"
      by (auto simp: phase_ok_def same_but_annotations_facts intro: phase_ok_working)
    from release_afterEtcd [OF this] True show ?thesis by (cases res) simp_all
  qed
qed

lemma release_runPhases:
  assumes "rel_inv E s" and "working (machine s)"
  shows "wp (runPhases E r) (\<lambda>_ t. justified (release_justified E) (hist t)) s"
  unfolding runPhases_def wp_bind [of "ensureObservedAt E"]
proof (rule wp_mono [OF phase_ensureObservedAt [OF assms]], goal_cases)
  case (1 obs t)
  show ?case
  proof (cases obs)
    case (Inl e)
    with 1 show ?thesis by (simp add: go_wp phase_ok_def)
  next
    case (Inr at)
    with 1 assms(2) have "rel_inv E t" "working (machine t)"
      by (auto simp: phase_ok_def intro: phase_ok_working)
    then have "wp (clusterDeleting E) (\<lambda>_ u. rel_inv E u \<and> working (machine u)) t"
      by (intro wp_mono [OF rel_inv_quiet [OF keep_clusterDeleting no_patch_ops(5)]]) auto
    with Inr show ?thesis
      by (auto simp: wp_bind [of "clusterDeleting E"] wp_return rel_inv_def split: sum.split
          elim!: wp_mono intro!: release_fromEtcd)
  qed
qed

text \<open>Stamping the hook removes none, and leaves the Machine hooked where a hook may be stamped.\<close>

lemma release_ensureHook:
  assumes "rel_inv E s" and "m_deletionTimestamp (machine s) = None \<or> HasHook (machine s) \<or> \<not> mhas (m_annotations (machine s)) ResetAnnotation"
  shows "wp (ensureHook E) (\<lambda>res t. case res of Inl _ \<Rightarrow> justified (release_justified E) (hist t)
     | Inr _ \<Rightarrow> rel_inv E t \<and> same_but_annotations (machine s) (machine t) \<and>
         (StampAllowed (machine s) \<longrightarrow> HasHook (machine t))) s"
proof -
  have "wp (patchAnnotations E (\<lambda>ann. Some (mdel_all (legacyHookKeys (machine s)) (mput HookAnnotation HookValue ann))))
      (\<lambda>res t. justified (release_justified E) (hist t) \<and> same_but_annotations (machine s) (machine t) \<and>
         (res = Inr () \<longrightarrow> rel_inv E t \<and> HasHook (machine t))) s" if "\<not> HasHook (machine s)"
    by (rule wp_mono [OF rel_inv_patch [OF assms(1)]])
       (use that assms(2) in \<open>auto simp: HasHook_def [of "machine _"] intro: protocol_hook\<close>)
  then show ?thesis
    using assms(1) unfolding ensureHook_def
    by (auto simp: go_wp event_def rel_inv_def synced_def split: sum.splits elim!: wp_mono)
qed

lemma release_lateStamp:
  assumes "rel_inv E s" and "m_deletionTimestamp (machine s) \<noteq> None"
  shows "wp (lateStamp E r) (\<lambda>res t. case res of Inl _ \<Rightarrow> justified (release_justified E) (hist t)
     | Inr proceed \<Rightarrow> rel_inv E t \<and> (proceed \<longrightarrow> working (machine t))) s"
proof -
  have creds: "wp (ensureCredentials E r) (\<lambda>_ u. rel_inv E u \<and> machine u = machine t) t" if "rel_inv E t" for t
    by (rule wp_mono [OF rel_inv_quiet [OF keep_ensureCredentials no_patch_ops(8) that]]) simp
  have "wp (ensureHook E) (\<lambda>res t. case res of Inl _ \<Rightarrow> justified (release_justified E) (hist t)
      | Inr _ \<Rightarrow> rel_inv E t \<and> working (machine t)) s"
    if "\<not> mhas (m_annotations (machine s)) ResetAnnotation" "StampAllowed (machine s)"
    by (rule wp_mono [OF release_ensureHook [OF assms(1)]])
       (use that assms(2) in \<open>auto simp: working_def same_but_annotations_facts split: sum.splits\<close>)
  from wp_mono [OF this] show ?thesis
    using assms unfolding lateStamp_def
    by (auto simp: go_wp working_def rel_inv_def [of E s] split: sum.splits
        intro!: wp_mono [OF \<open>_ \<Longrightarrow> _ \<Longrightarrow> wp (ensureHook E) _ s\<close>] wp_mono [OF creds])
       (simp_all add: rel_inv_def)
qed

lemma release_reconcileDeleting:
  assumes "rel_inv E s" and "m_deletionTimestamp (machine s) \<noteq> None"
  shows "wp (reconcileDeleting E r) (\<lambda>_ t. justified (release_justified E) (hist t)) s"
  unfolding reconcileDeleting_def
  by (auto simp: go_wp split: sum.splits bool.split
      intro!: wp_mono [OF release_lateStamp [OF assms]] release_runPhases)
     (simp_all add: rel_inv_def)

lemma release_reconcileNormal:
  assumes "rel_inv E s" and "m_deletionTimestamp (machine s) = None"
  shows "wp (reconcileNormal E r) (\<lambda>_ t. justified (release_justified E) (hist t)) s"
proof -
  have creds: "wp (ensureCredentials E r) (\<lambda>_ u. justified (release_justified E) (hist u)) t" if "rel_inv E t" for t
    by (rule wp_mono [OF rel_inv_quiet [OF keep_ensureCredentials no_patch_ops(8) that]])
       (simp add: rel_inv_def)
  show ?thesis
    unfolding reconcileNormal_def
    by (auto simp: go_wp split: sum.splits intro!: wp_mono [OF release_ensureHook [OF assms(1)]] creds)
       (use assms(2) in simp)
qed

lemma justifies_Reconcile: "justifies (release_justified E) (Reconcile E r req)"
proof (rule obeysI)
  fix s :: rstate
  show "wp (Reconcile E r req) (\<lambda>_. just_rel (release_justified E) s) s"
  proof (cases "justified (release_justified E) (hist s)")
    case True
    have inv: "rel_inv E (fetched s req m)" for m
      using True by (simp add: rel_inv_def synced_def current_def)
    note step = release_reconcileNormal [OF inv] release_reconcileDeleting [OF inv]
    have "wp (Reconcile E r req) (\<lambda>_ t. justified (release_justified E) (hist t)) s"
      using True
      by (rule_tac wp_ReconcileI) (auto intro: wp_mono [OF step(1)] step(2))
    then show ?thesis by (rule wp_mono) (simp add: just_rel_def)
  next
    case False
    then show ?thesis by (simp add: just_rel_def wp_all)
  qed
qed

end
