(* ===== verification/Reconciler_Guards.thy ===== *)
theory Reconciler_Guards
  imports Reconciler_Release
begin

text \<open>
  One reconcile as a function from the history so far to a result and a trace, and the guards in
  front of its actions: foreign Machines, Machines not yet at the pre-terminate wait, Machines with
  other hooks, Machines whose hook has been released.
\<close>

section \<open>One reconcile\<close>

definition start :: "history \<Rightarrow> rstate" where
  "start h = \<lparr>hist = h, machine = zeroMachine\<rparr>"

definition reconcile_result :: "env \<Rightarrow> Reconciler \<Rightarrow> ObjectKey \<Rightarrow> history \<Rightarrow> go_error + Result" where
  "reconcile_result E r req h = fst (run_state (Reconcile E r req) (start h))"

text \<open>What the reconcile adds to the history.\<close>

definition reconcile_trace :: "env \<Rightarrow> Reconciler \<Rightarrow> ObjectKey \<Rightarrow> history \<Rightarrow> history" where
  "reconcile_trace E r req h = drop (length h) (hist (snd (run_state (Reconcile E r req) (start h))))"

text \<open>The Machine it holds at the end.\<close>

definition reconcile_machine :: "env \<Rightarrow> Reconciler \<Rightarrow> ObjectKey \<Rightarrow> history \<Rightarrow> Machine" where
  "reconcile_machine E r req h = machine (snd (run_state (Reconcile E r req) (start h)))"

lemma start_simps [simp]: "hist (start h) = h" "machine (start h) = zeroMachine"
  by (simp_all add: start_def)

lemmas grows_ops = quiet_ops [THEN emits_grows] etcd_only_tryEtcdRemoval [THEN emits_grows]
  reset_only_tryReset [THEN emits_grows]

lemma grows_phases: "grows (etcdPhase E r at del)" "grows (resetPhase E r at)"
proof -
  show "grows (etcdPhase E r at del)"
    unfolding etcdPhase_def ensureEtcdRemoved_def talos_wrappers
    by (intro emits_rules emits_theMachine grows_ops) simp_all
  show "grows (resetPhase E r at)"
    unfolding resetPhase_def talos_wrappers
    by (intro emits_rules emits_theMachine grows_ops) simp_all
qed

lemma grows_runPhases: "grows (runPhases E r)"
  unfolding runPhases_def by (intro emits_rules grows_phases grows_ops)

lemma grows_reconcileDeleting: "grows (reconcileDeleting E r)"
  unfolding reconcileDeleting_def by (intro emits_rules emits_theMachine grows_runPhases grows_ops)

lemma grows_Reconcile: "grows (Reconcile E r req)"
  unfolding Reconcile_def
  by (intro emits_rules emits_setMachine grows_ops grows_reconcileDeleting) simp_all

lemma hist_reconcile:
  "hist (snd (run_state (Reconcile E r req) (start h))) = h @ reconcile_trace E r req h"
  using grows_Reconcile [of E r req] by (auto simp: obeys_def emits_rel_def reconcile_trace_def dest!: spec [of _ "start h"])

text \<open>A weakest precondition of \<open>Reconcile\<close> read as a statement on result and trace.\<close>

lemma reconcile_rule:
  assumes "wp (Reconcile E r req) (\<lambda>res t. \<forall>new. hist t = h @ new \<longrightarrow> P res new (machine t)) (start h)"
  shows "P (reconcile_result E r req h) (reconcile_trace E r req h) (reconcile_machine E r req h)"
  using assms hist_reconcile [of E r req h]
  by (simp add: wp_def case_prod_beta reconcile_result_def reconcile_machine_def)

text \<open>A run of the controller: one reconcile after the other, over the same history.\<close>

fun reconcile_runs :: "env \<Rightarrow> Reconciler \<Rightarrow> ObjectKey list \<Rightarrow> history \<Rightarrow> history" where
  "reconcile_runs E r [] h = h"
| "reconcile_runs E r (req # reqs) h = reconcile_runs E r reqs (h @ reconcile_trace E r req h)"

lemma justified_reconcile_runs:
  assumes "\<And>req. justifies J (Reconcile E r req)" and "justified J h"
  shows "justified J (reconcile_runs E r reqs h)"
  using assms(2)
proof (induction reqs arbitrary: h)
  case (Cons req reqs)
  have "justified J (hist (snd (run_state (Reconcile E r req) (start h))))"
    using assms(1) [of req] Cons.prems by (auto simp: obeys_def just_rel_def dest!: spec [of _ "start h"])
  then show ?case
    using Cons.IH by (simp add: hist_reconcile del: justified_append)
qed simp

section \<open>Guards\<close>

lemma frame_guards:
  assumes "frame m m'" and "wf_machine m"
  shows "AtPreTerminate m' = AtPreTerminate m" "HasOtherPreTerminateHooks m' = HasOtherPreTerminateHooks m"
    "mhas (m_annotations m') EtcdLeavingAnnotation = mhas (m_annotations m) EtcdLeavingAnnotation"
proof -
  from assms have wf': "wf_machine m'" and same: "same_but_annotations m m'"
    and fp: "foreign_part (m_annotations m') = foreign_part (m_annotations m)"
    by (auto simp: frame_def)
  show "AtPreTerminate m' = AtPreTerminate m"
    by (simp add: AtPreTerminate_def same_but_annotations_facts [OF same])
  show "HasOtherPreTerminateHooks m' = HasOtherPreTerminateHooks m"
    by (simp add: HasOther_foreign wf' assms(2) fp)
  show "mhas (m_annotations m') EtcdLeavingAnnotation = mhas (m_annotations m) EtcdLeavingAnnotation"
    using fp by (simp add: mhas_def flip: foreign_part_leaving)
qed

text \<open>The Machine may be torn down now.\<close>

definition may_act :: "Machine \<Rightarrow> bool" where
  "may_act m = (m_deletionTimestamp m \<noteq> None \<and> AtPreTerminate m \<and> \<not> HasOtherPreTerminateHooks m)"

lemma reconcileDeleting_held:
  assumes "wf_machine (machine s)" and "\<not> (AtPreTerminate (machine s) \<and> \<not> HasOtherPreTerminateHooks (machine s))"
  shows "wp (reconcileDeleting E r) (\<lambda>_. emits_rel (\<lambda>x. \<not> is_talos x) s) s"
proof -
  have "wp (lateStamp E r) (\<lambda>_ t. frame_rel s t \<and> emits_rel (\<lambda>x. \<not> is_talos x) s t) s"
    by (intro wp_conj obeys_wp frame_lateStamp quiet_lateStamp)
  then show ?thesis
    unfolding reconcileDeleting_def wp_bind [of "lateStamp E r"]
  proof (rule wp_mono, goal_cases)
    case (1 res t)
    then have "\<not> (AtPreTerminate (machine t) \<and> \<not> HasOtherPreTerminateHooks (machine t))"
      using frame_guards [of "machine s" "machine t"] assms by (simp add: frame_rel_def)
    with 1 show ?case
      by (simp add: go_wp split: sum.split bool.split)
  qed
qed

text \<open>A trace without calls to a Talos node, unless the Machine may be torn down.\<close>

lemma Reconcile_held:
  assumes "\<And>m. get_machine E h req = Inr m \<Longrightarrow> wf_machine m"
    and "\<And>m. get_machine E h req = Inr m \<Longrightarrow> \<not> ((Qualifies m \<or> HasHook m) \<and> may_act m)"
  shows "list_all (\<lambda>x. \<not> is_talos x) (reconcile_trace E r req h)"
proof (rule reconcile_rule, rule wp_ReconcileI)
  fix m
  assume get: "get_machine E (hist (start h)) req = Inr m"
    and mine: "Qualifies m \<or> HasHook m"
  have rel: "\<forall>new. hist t = h @ new \<longrightarrow> list_all (\<lambda>x. \<not> is_talos x) new"
    if "emits_rel (\<lambda>x. \<not> is_talos x) (fetched (start h) req m) t" for t
    using that by (auto simp: emits_rel_def)
  show "wp (reconcileNormal E r) (\<lambda>res t. \<forall>new. hist t = h @ new \<longrightarrow> list_all (\<lambda>x. \<not> is_talos x) new)
      (fetched (start h) req m)"
    by (rule wp_mono [OF obeys_wp [OF quiet_reconcileNormal]]) (rule rel)
  assume "m_deletionTimestamp m \<noteq> None"
  then show "wp (reconcileDeleting E r) (\<lambda>res t. \<forall>new. hist t = h @ new \<longrightarrow> list_all (\<lambda>x. \<not> is_talos x) new)
      (fetched (start h) req m)"
    using assms get mine
    by (intro wp_mono [OF reconcileDeleting_held rel]) (auto simp: may_act_def)
qed auto

section \<open>The frame of a whole reconcile\<close>

lemma foreign_part_Some:
  "\<not> own_annotation k v \<Longrightarrow> foreign_part ann k = Some v \<longleftrightarrow> map_of ann k = Some v"
  by (auto simp: foreign_part_def split: option.split)

lemma justifies_frame: "justifies patch_framed (Reconcile E r req)"
proof (rule obeysI)
  fix s :: rstate
  have step: "wp m (\<lambda>_. just_rel patch_framed s) (fetched s req v)" if "framed m" for m :: "'b rprog" and v
    by (rule wp_mono [OF obeys_wp [OF that]]) (simp add: frame_rel_def just_rel_def)
  show "wp (Reconcile E r req) (\<lambda>_. just_rel patch_framed s) s"
    by (rule wp_ReconcileI) (auto simp: just_rel_def [of _ s "s\<lparr>machine := _, hist := _\<rparr>"]
        just_rel_def [of _ s "fetched _ _ _"] intro: step frame_reconcile)
qed

end
