(* ===== verification/Scenario.thy ===== *)
theory Scenario
  imports Reconciler_Guards
begin

text \<open>
  Concrete worlds for the witnesses of the teardown properties: a cluster with two control-plane
  Machines and a worker, an API server that accepts every write, and Talos nodes that answer.
\<close>

definition ex_victim :: Machine where
  "ex_victim = zeroMachine
     \<lparr>m_name := ''cp-1'', m_namespace := ''ns'',
      m_labels := [(MachineControlPlaneLabel, '''')],
      m_annotations := [(HookAnnotation, HookValue), (ObservedAtAnnotation, ''2024-05-01T10:00:00Z'')],
      m_creationTimestamp := 10, m_deletionTimestamp := Some 100, m_clusterName := ''c'',
      m_bootstrapKind := ''TalosConfig'', m_bootstrapAPIGroup := ''bootstrap.cluster.x-k8s.io'',
      m_infraKind := ''TinkerbellMachine'', m_infraAPIGroup := ''infrastructure.cluster.x-k8s.io'',
      m_infraName := ''tm-1'', m_nodeRefName := ''cp-1'',
      m_addresses := [\<lparr>addr_type = MachineInternalIP, addr_address = ''10.0.0.1''\<rparr>],
      m_conditions := [\<lparr>cond_type = MachineDeletingCondition, cond_status = ConditionTrue,
                        cond_reason = MachineDeletingWaitingForPreTerminateHookReason\<rparr>]\<rparr>"

definition ex_peer :: Machine where
  "ex_peer = ex_victim
     \<lparr>m_name := ''cp-2'', m_deletionTimestamp := None, m_nodeRefName := ''cp-2'', m_infraName := ''tm-2'',
      m_addresses := [\<lparr>addr_type = MachineInternalIP, addr_address = ''10.0.0.2''\<rparr>], m_conditions := []\<rparr>"

definition ex_worker :: Machine where
  "ex_worker = ex_victim\<lparr>m_name := ''w-1'', m_labels := [], m_nodeRefName := ''w-1'', m_infraName := ''tm-3''\<rparr>"

definition ex_healthy :: "Machine \<Rightarrow> Machine" where
  "ex_healthy m = m\<lparr>m_deletionTimestamp := None, m_conditions := [], m_annotations := []\<rparr>"

definition ex_key :: ObjectKey where
  "ex_key = \<lparr>Namespace = ''ns'', Name = ''cp-1''\<rparr>"

definition ex_reconciler :: Reconciler where
  "ex_reconciler = \<lparr>EtcdTimeout = 10 * Minute, ResetTimeout = 15 * Minute,
     EtcdCallTimeout = 30 * Second, ResetCallTimeout = 60 * Second, CacheNamespace = ''cache''\<rparr>"

definition ex_secret :: Secret where
  "ex_secret = \<lparr>sec_meta = \<lparr>om_name = ''c-talosconfig'', om_namespace = ''ns'', om_labels = [],
       om_annotations = [], om_resourceVersion = ''7''\<rparr>,
     sec_data = [(talosconfigKey, ''cfg'')]\<rparr>"

text \<open>The world, with the Machine stored in it, its peers and the clock as arguments.\<close>

definition ex_world :: "Machine \<Rightarrow> Machine list \<Rightarrow> time \<Rightarrow> env" where
  "ex_world m peers t =
     \<lparr>get_machine = (\<lambda>_ _. Inr m),
      get_cluster = (\<lambda>_ _. Inr \<lparr>cl_deletionTimestamp = None\<rparr>),
      get_secret = (\<lambda>_ _. Inr ex_secret),
      get_tinkerbellmachine = (\<lambda>_ _. Inl NotFound),
      get_hardware = (\<lambda>_ _. Inl NotFound),
      list_machines = (\<lambda>_ _ _ _. Inr peers),
      list_secrets = (\<lambda>_ _ _. Inr []),
      create_secret = (\<lambda>_ _. None), update_secret = (\<lambda>_ _. None), delete_secret = (\<lambda>_ _. None),
      new_helper = (\<lambda>_ _. None), patch_machine = (\<lambda>_ _ _. None),
      now_at = (\<lambda>_. t),
      dial = (\<lambda>_ _. None),
      service_info = (\<lambda>_ _ _. Inr [Some \<lparr>svc_state = ''Running'', svc_healthy = True\<rparr>]),
      member_list = (\<lambda>_ _. Inr (Some [[\<lparr>mem_id = 42, mem_hostname = ''cp-1''\<rparr>, \<lparr>mem_id = 43, mem_hostname = ''cp-2''\<rparr>]])),
      forfeit = (\<lambda>_ _. None), leave = (\<lambda>_ _. None), remove_member = (\<lambda>_ _ _. None),
      reset_node = (\<lambda>_ _ _. None),
      from_bytes = (\<lambda>_. None), uni_fold = (\<lambda>r. r), lenient = (\<lambda>_. None)\<rparr>"

definition ex_time :: time where
  "ex_time = 1714557601000000000"

abbreviation ex_cp_world :: env where
  "ex_cp_world \<equiv> ex_world ex_victim [ex_victim, ex_peer] ex_time"

section \<open>Evaluation\<close>

lemma ex_world_sel [simp]:
  "get_machine (ex_world m ps t) h k = Inr m"
  "get_cluster (ex_world m ps t) h k = Inr \<lparr>cl_deletionTimestamp = None\<rparr>"
  "get_secret (ex_world m ps t) h k = Inr ex_secret"
  "list_machines (ex_world m ps t) h ns l hs = Inr ps"
  "new_helper (ex_world m ps t) h m' = None"
  "patch_machine (ex_world m ps t) h m' m'' = None"
  "now_at (ex_world m ps t) h = t"
  "dial (ex_world m ps t) h opts = None"
  "service_info (ex_world m ps t) h c svc = Inr [Some \<lparr>svc_state = ''Running'', svc_healthy = True\<rparr>]"
  "member_list (ex_world m ps t) h c =
     Inr (Some [[\<lparr>mem_id = 42, mem_hostname = ''cp-1''\<rparr>, \<lparr>mem_id = 43, mem_hostname = ''cp-2''\<rparr>]])"
  "forfeit (ex_world m ps t) h c = None" "leave (ex_world m ps t) h c = None"
  "remove_member (ex_world m ps t) h c i = None" "reset_node (ex_world m ps t) h c q = None"
  "from_bytes (ex_world m ps t) b = None" "uni_fold (ex_world m ps t) = (\<lambda>r. r)"
  "lenient (ex_world m ps t) = (\<lambda>_. None)"
  "create_secret (ex_world m ps t) h c' = None" "update_secret (ex_world m ps t) h c' = None"
  "delete_secret (ex_world m ps t) h c' = None"
  by (simp_all add: ex_world_def)

lemma ex_victim_sel [simp]:
  "m_name ex_victim = ''cp-1''" "m_namespace ex_victim = ''ns''"
  "m_labels ex_victim = [(MachineControlPlaneLabel, '''')]"
  "m_annotations ex_victim = [(HookAnnotation, HookValue), (ObservedAtAnnotation, ''2024-05-01T10:00:00Z'')]"
  "m_creationTimestamp ex_victim = 10" "m_deletionTimestamp ex_victim = Some 100"
  "m_clusterName ex_victim = ''c''"
  "m_addresses ex_victim = [\<lparr>addr_type = MachineInternalIP, addr_address = ''10.0.0.1''\<rparr>]"
  "m_nodeRefName ex_victim = ''cp-1''" "m_infraName ex_victim = ''tm-1''"
  "Qualifies ex_victim" "HasHook ex_victim" "AtPreTerminate ex_victim"
  "\<not> HasOtherPreTerminateHooks ex_victim" "IsControlPlane ex_victim" "wf_machine ex_victim"
  by (simp_all add: ex_victim_def Qualifies_def HasHook_def AtPreTerminate_def deletingReason_def
      HasOtherPreTerminateHooks_def IsControlPlane_def mhas_def wf_machine_def wf_map_def
      MachineDeletingCondition_def ConditionTrue_def)

lemma ex_peer_sel [simp]:
  "m_name ex_peer = ''cp-2''" "m_deletionTimestamp ex_peer = None" "m_nodeRefName ex_peer = ''cp-2''"
  "m_annotations ex_peer = m_annotations ex_victim"
  "m_addresses ex_peer = [\<lparr>addr_type = MachineInternalIP, addr_address = ''10.0.0.2''\<rparr>]"
  by (simp_all add: ex_peer_def)

lemma ex_parse [simp]: "time_Parse l ''2024-05-01T10:00:00Z'' = Some 1714557600000000000"
  by (simp add: time_Parse_def parseRFC3339_def parseUint_def slice_def atoi_def isDigit_def daysIn_def
      month_lens_def leap_def parse_frac_def parse_zone_def day_number_def days_before_year_def
      days_before_month_def epoch_day_def Second_def)

lemmas reconcile_eval = Reconcile_def reconcileDeleting_def lateStamp_def runPhases_def
  ensureObservedAt_def recordedObservedAt_def clusterDeleting_def etcdPhase_def
  serializeControlPlane_def listControlPlaneMachines_def ensureEtcdRemoved_def tryEtcdRemoval_def
  Config_def decodeConfig_def findHealthyPeer_def orderPeers_def peerCandidate_def probePeer_def
  resolveAddress_def talos_defs newClientOptions_def findMember_def
  hostnameCandidates_def leaveViaVictim_def concludeEtcd_def stampPhase_def patchAnnotations_def
  recordEtcdOutcome_def event_def now_def resetPhase_def tryReset_def concludeReset_def release_def
  sortByAge_def

text \<open>The data the evaluation of a reconcile looks into.\<close>

lemmas data_eval = mhas_def mget_def IsZero_def ZeroResult_def Second_def Minute_def
  etcdRunningState_def IsNotFound_def EtcdLeft_def EtcdRemoved_def EtcdNotMember_def ResetDone_def
  ResetSkippedNoAddress_def MachineHostName_def MachineInternalIP_def MachineExternalIP_def

lemma ex_secret_data [simp]: "map_of (sec_data ex_secret) talosconfigKey = Some ''cfg''"
  by (simp add: ex_secret_def)

definition ex_client :: "string \<Rightarrow> nat \<Rightarrow> talos_client" where
  "ex_client a n = \<lparr>cl_options = newClientOptions (TalosConfig ''cfg'') a, cl_id = n\<rparr>"

definition ex_etcd_done :: Machine where
  "ex_etcd_done = ex_victim\<lparr>m_annotations := mput EtcdAnnotation EtcdLeft (m_annotations ex_victim)\<rparr>"

definition ex_reset_done :: Machine where
  "ex_reset_done = ex_victim\<lparr>m_annotations := mput ResetAnnotation ResetDone (m_annotations ex_etcd_done)\<rparr>"

definition ex_released :: Machine where
  "ex_released = ex_victim\<lparr>m_annotations := mdel_all (legacyHookKeys ex_reset_done) (mdel HookAnnotation (m_annotations ex_reset_done))\<rparr>"

text \<open>The whole teardown of the control-plane Machine in one reconcile.\<close>

definition ex_trace :: history where
  "ex_trace =
     [OGetMachine ex_key (Inr ex_victim),
      OGetCluster (clusterKeyFor ex_victim) (Inr \<lparr>cl_deletionTimestamp = None\<rparr>),
      OListMachines ''ns'' [(CapiClusterNameLabel, Name (clusterKeyFor ex_victim))]
        [MachineControlPlaneLabel] (Inr [ex_victim, ex_peer]),
      OGetSecret (sourceSecretName (clusterKeyFor ex_victim)) (Inr ex_secret),
      OListMachines ''ns'' [(CapiClusterNameLabel, Name (clusterKeyFor ex_victim))]
        [MachineControlPlaneLabel] (Inr [ex_victim, ex_peer]),
      ODial (newClientOptions (TalosConfig ''cfg'') ''10.0.0.2'') (Inr (ex_client ''10.0.0.2'' 5)),
      OServiceInfo (ex_client ''10.0.0.2'' 5) (EtcdCallTimeout ex_reconciler) ''etcd''
        (Inr [Some \<lparr>svc_state = ''Running'', svc_healthy = True\<rparr>]),
      OEtcdMemberList (ex_client ''10.0.0.2'' 5) (EtcdCallTimeout ex_reconciler)
        (Inr (Some [[\<lparr>mem_id = 42, mem_hostname = ''cp-1''\<rparr>, \<lparr>mem_id = 43, mem_hostname = ''cp-2''\<rparr>]])),
      ODial (newClientOptions (TalosConfig ''cfg'') ''10.0.0.1'') (Inr (ex_client ''10.0.0.1'' 8)),
      OServiceInfo (ex_client ''10.0.0.1'' 8) (EtcdCallTimeout ex_reconciler) ''etcd''
        (Inr [Some \<lparr>svc_state = ''Running'', svc_healthy = True\<rparr>]),
      OEtcdForfeitLeadership (ex_client ''10.0.0.1'' 8) (EtcdCallTimeout ex_reconciler) None,
      OEtcdLeaveCluster (ex_client ''10.0.0.1'' 8) (EtcdCallTimeout ex_reconciler) None,
      OClose (ex_client ''10.0.0.1'' 8),
      OClose (ex_client ''10.0.0.2'' 5),
      ONewHelper ex_victim None,
      OPatch ex_victim ex_etcd_done None,
      OMetric (etcdOutcomes EtcdLeft),
      OEvent EventTypeNormal EventEtcdMemberLeft,
      OGetSecret (sourceSecretName (clusterKeyFor ex_victim)) (Inr ex_secret),
      ODial (newClientOptions (TalosConfig ''cfg'') ''10.0.0.1'') (Inr (ex_client ''10.0.0.1'' 19)),
      ONow ex_time,
      OResetGeneric (ex_client ''10.0.0.1'' 19) (ResetCallTimeout ex_reconciler) resetRequest None,
      ONow ex_time,
      OMetric (resetDuration 0),
      OClose (ex_client ''10.0.0.1'' 19),
      ONewHelper ex_etcd_done None,
      OPatch ex_etcd_done ex_reset_done None,
      OMetric (resetOutcomes ResetDone),
      OEvent EventTypeNormal EventResetSucceeded,
      ONewHelper ex_reset_done None,
      OPatch ex_reset_done ex_released None,
      OEvent EventTypeNormal EventTeardownComplete,
      OMetric machinesCompleted]"

lemma ex_cp_trace: "reconcile_trace ex_cp_world ex_reconciler ex_key [] = ex_trace"
  by (simp add: reconcile_trace_def start_def reconcile_eval data_eval Let_def ex_trace_def ex_client_def
      ex_etcd_done_def ex_reset_done_def ex_released_def)

lemma ex_cp_result: "reconcile_result ex_cp_world ex_reconciler ex_key [] = Inr ZeroResult"
  by (simp add: reconcile_result_def start_def reconcile_eval data_eval Let_def)

end
