(* ===== verification/Reconciler_Etcd.thy ===== *)
theory Reconciler_Etcd
  imports Reconciler_Guards
begin

text \<open>
  The etcd phase verifies before it acts: each operation that changes the etcd membership is
  justified by what the same reconcile has seen.
\<close>

fun is_membership_op :: "obs \<Rightarrow> bool" where
  "is_membership_op (OEtcdForfeitLeadership _ _ _) = True"
| "is_membership_op (OEtcdLeaveCluster _ _ _) = True"
| "is_membership_op (OEtcdRemoveMemberByID _ _ _ _) = True"
| "is_membership_op _ = False"

section \<open>Evidence\<close>

text \<open>A peer that answered: a healthy etcd service, and this member list.\<close>

definition peer_vouches :: "talos_client \<Rightarrow> member_list option \<Rightarrow> history \<Rightarrow> bool" where
  "peer_vouches c resp h =
     ((\<exists>d infos. OServiceInfo c d ''etcd'' (Inr infos) \<in> set h \<and> etcdHealthy infos) \<and>
      (\<exists>d. OEtcdMemberList c d (Inr resp) \<in> set h))"

text \<open>The listing of the control-plane Machines of the victim's cluster.\<close>

definition cp_listing :: "Machine \<Rightarrow> Machine list \<Rightarrow> obs" where
  "cp_listing m items =
     OListMachines (m_namespace m) [(CapiClusterNameLabel, Name (clusterKeyFor m))]
       [MachineControlPlaneLabel] (Inr items)"

text \<open>It is the victim's turn: a control-plane Machine of a live cluster that no older deletion holds.\<close>

definition etcd_turn :: "ObjectKey \<Rightarrow> Machine \<Rightarrow> history \<Rightarrow> bool" where
  "etcd_turn req m h =
     (OGetMachine req (Inr m) \<in> set h \<and> IsControlPlane m \<and>
      OGetCluster (clusterKeyFor m) (Inr \<lparr>cl_deletionTimestamp = None\<rparr>) \<in> set h \<and>
      (\<exists>items. cp_listing m items \<in> set h \<and> serialHold items m = Inr False))"

text \<open>A candidate peer, reached at its address, has the victim in its member list.\<close>

definition member_seen :: "env \<Rightarrow> Machine \<Rightarrow> talos_client \<Rightarrow> etcd_member \<Rightarrow> history \<Rightarrow> bool" where
  "member_seen E m c member h =
     (\<exists>items peer resp. cp_listing m items \<in> set h \<and> peer \<in> set items \<and> peerCandidate m peer \<and>
        address_evidence h peer (cl_endpoint c) \<and> peer_vouches c resp h \<and>
        findMember (uni_fold E) resp (hostnameCandidates m) = Some member)"

fun op_fits :: "Machine \<Rightarrow> talos_client \<Rightarrow> etcd_member \<Rightarrow> history \<Rightarrow> obs \<Rightarrow> bool" where
  "op_fits m c member h (OEtcdRemoveMemberByID c' _ i _) = (c' = c \<and> i = mem_id member)"
| "op_fits m c member h (OEtcdLeaveCluster c' _ _) = address_evidence h m (cl_endpoint c')"
| "op_fits m c member h (OEtcdForfeitLeadership c' _ _) =
     (address_evidence h m (cl_endpoint c') \<and> \<not> mhas (m_annotations m) EtcdLeavingAnnotation)"
| "op_fits m c member h _ = True"

definition etcd_evidence :: "env \<Rightarrow> ObjectKey \<Rightarrow> history \<Rightarrow> obs \<Rightarrow> bool" where
  "etcd_evidence E req h x =
     (\<exists>m c member. etcd_turn req m h \<and> member_seen E m c member h \<and> op_fits m c member h x)"

definition etcd_justified :: "env \<Rightarrow> ObjectKey \<Rightarrow> history \<Rightarrow> obs \<Rightarrow> bool" where
  "etcd_justified E req h x = (is_membership_op x \<longrightarrow> etcd_evidence E req h x)"

lemma etcd_justified_other [simp]: "\<not> is_membership_op x \<Longrightarrow> etcd_justified E req h x"
  by (simp add: etcd_justified_def)

lemma evidence_append [simp]:
  "peer_vouches c resp h \<Longrightarrow> peer_vouches c resp (h @ h')"
  "etcd_turn req m h \<Longrightarrow> etcd_turn req m (h @ h')"
  "member_seen E m c member h \<Longrightarrow> member_seen E m c member (h @ h')"
  unfolding peer_vouches_def etcd_turn_def member_seen_def
  by (fastforce intro: address_evidence_append)+

lemma evidence_stable:
  "stable (etcd_turn req m)" "stable (member_seen E m c member)" "stable (\<lambda>h. x \<in> set h)"
  "stable A \<Longrightarrow> stable B \<Longrightarrow> stable (\<lambda>h. A h \<and> B h)"
  by (simp_all add: stable_def)

section \<open>Looking for a healthy peer\<close>

lemma wp_probePeer:
  "wp (probePeer E r peer cfg)
     (\<lambda>res t. \<forall>c resp. res = Some (c, resp) \<longrightarrow>
        address_evidence (hist t) peer (cl_endpoint c) \<and> peer_vouches c resp (hist t)) s"
  unfolding probePeer_def wp_bind [of "resolveAddress E peer"]
  by (rule wp_mono [OF wp_resolveAddress])
     (auto simp: go_wp talos_defs peer_vouches_def
       split: sum.split option.splits)

lemma wp_probePeers:
  "wp (probePeers E r cfg peers)
     (\<lambda>res t. \<forall>c resp. res = Inr (c, resp) \<longrightarrow>
        (\<exists>peer \<in> set peers. address_evidence (hist t) peer (cl_endpoint c)) \<and> peer_vouches c resp (hist t)) s"
proof (induction peers arbitrary: s)
  case (Cons peer peers)
  show ?case
    unfolding probePeers.simps wp_bind
    by (rule wp_mono [OF wp_probePeer]) (auto simp: wp_return split: option.split intro: wp_mono [OF Cons.IH])
qed (simp add: wp_return)

lemma set_orderPeers: "set (orderPeers items m) = {p \<in> set items. peerCandidate m p}"
  by (auto simp: orderPeers_def sortByAge_def Let_def)

lemma wp_findHealthyPeer:
  "wp (findHealthyPeer E r cfg)
     (\<lambda>res t. \<forall>c resp. res = Inr (c, resp) \<longrightarrow>
        (\<exists>items peer. cp_listing (machine s) items \<in> set (hist t) \<and> peer \<in> set items \<and>
            peerCandidate (machine s) peer \<and> address_evidence (hist t) peer (cl_endpoint c)) \<and>
        peer_vouches c resp (hist t)) s"
proof -
  have step: "wp (probePeers E r cfg (orderPeers items (machine s)))
      (\<lambda>res t. cp_listing (machine s) items \<in> set (hist t) \<and> (\<forall>c resp. res = Inr (c, resp) \<longrightarrow>
        (\<exists>peer \<in> set (orderPeers items (machine s)). address_evidence (hist t) peer (cl_endpoint c)) \<and>
        peer_vouches c resp (hist t))) u"
    if "cp_listing (machine s) items \<in> set (hist u)" for items u
    by (intro wp_conj wp_probePeers grows_stable [where A = "\<lambda>h. cp_listing (machine s) items \<in> set h"]
        emits_grows [OF etcd_only_probePeers] evidence_stable that)
  show ?thesis
    unfolding findHealthyPeer_def listControlPlaneMachines_def
    by (auto simp: go_wp Let_def cp_listing_def split: sum.split
        intro!: wp_mono [OF step [unfolded cp_listing_def]])
       (auto simp: set_orderPeers)
qed

section \<open>Acting\<close>

text \<open>The victim as it was read, and as the reconcile holds it now.\<close>

definition victim_is :: "Machine \<Rightarrow> Machine \<Rightarrow> bool" where
  "victim_is m v = (same_but_annotations m v \<and>
     (mhas (m_annotations v) EtcdLeavingAnnotation \<longleftrightarrow> mhas (m_annotations m) EtcdLeavingAnnotation))"

lemma victim_facts:
  assumes "victim_is m v"
  shows "hostnameCandidates v = hostnameCandidates m" "clusterKeyFor v = clusterKeyFor m"
    "cp_listing v items = cp_listing m items" "peerCandidate v p = peerCandidate m p"
    "address_evidence h v a = address_evidence h m a" "serialHold items v = serialHold items m"
    "IsControlPlane v = IsControlPlane m"
proof -
  obtain a where v: "v = m\<lparr>m_annotations := a\<rparr>"
    using assms by (auto simp: victim_is_def same_but_annotations_def)
  show "serialHold items v = serialHold items m"
    unfolding v by (induction items) (simp_all split: option.split)
  show "hostnameCandidates v = hostnameCandidates m" "clusterKeyFor v = clusterKeyFor m"
    "cp_listing v items = cp_listing m items" "peerCandidate v p = peerCandidate m p"
    "address_evidence h v a = address_evidence h m a" for a
    by (simp_all add: v cp_listing_def peerCandidate_def)
  show "IsControlPlane v = IsControlPlane m" by (simp add: v)
qed

lemma etcd_justifiedI:
  "etcd_turn req m h \<Longrightarrow> member_seen E m c member h \<Longrightarrow> op_fits m c member h x \<Longrightarrow> etcd_justified E req h x"
  by (auto simp: etcd_justified_def etcd_evidence_def)

text \<open>Work without a membership operation keeps what has been established.\<close>

lemma etcd_quiet:
  assumes "keeps_machine p" and "emits (\<lambda>x. \<not> is_membership_op x) p" and "stable A"
    and "A (hist s)" and "justified (etcd_justified E req) (hist s)"
  shows "wp p (\<lambda>_ t. machine t = machine s \<and> A (hist t) \<and> justified (etcd_justified E req) (hist t)) s"
proof -
  have "obeys (under_rel A (etcd_justified E req)) p"
    by (rule under_emits [OF assms(3,2)]) simp
  from wp_conj [OF obeys_wp [OF assms(1)] obeys_wp [OF this]] show ?thesis
    by (rule wp_mono) (use assms(4,5) in \<open>auto simp: keep_rel_def under_rel_def\<close>)
qed

lemma no_membership:
  "\<not> is_version_or_reset x \<Longrightarrow> is_address_read x \<Longrightarrow> \<not> is_membership_op x"
  "\<not> is_talos x \<Longrightarrow> \<not> is_membership_op x"
  "is_address_read x \<Longrightarrow> \<not> is_membership_op x"
  "is_secret_read x \<Longrightarrow> \<not> is_membership_op x"
  by (cases x; simp)+

lemma no_membership_probePeers: "emits (\<lambda>x. \<not> is_membership_op x) (probePeers E r cfg peers)"
proof -
  have "emits (\<lambda>x. \<not> is_membership_op x) (probePeer E r peer cfg)" for peer
    unfolding probePeer_def talos_wrappers by (intro go_effect) (simp_all add: no_membership)
  then show ?thesis
    by (induction peers) (simp_all, (intro go_effect | assumption)+)
qed

lemma no_membership_findHealthyPeer: "emits (\<lambda>x. \<not> is_membership_op x) (findHealthyPeer E r cfg)"
  unfolding findHealthyPeer_def listControlPlaneMachines_def
  by (intro go_effect no_membership_probePeers) simp_all

lemma etcd_leaveViaVictim:
  assumes "victim_is m (machine s)" and "etcd_turn req m (hist s)" and "member_seen E m c member (hist s)"
    and "justified (etcd_justified E req) (hist s)"
  shows "wp (leaveViaVictim E r cfg)
     (\<lambda>_ t. etcd_turn req m (hist t) \<and> member_seen E m c member (hist t) \<and>
            justified (etcd_justified E req) (hist t)) s"
proof -
  let ?A = "\<lambda>h. etcd_turn req m h \<and> member_seen E m c member h"
  have "wp (resolveAddress E (machine s))
     (\<lambda>res t. (\<forall>a. res = Inr a \<and> a \<noteq> '''' \<longrightarrow> address_evidence (hist t) m a) \<and>
        machine t = machine s \<and> ?A (hist t) \<and> justified (etcd_justified E req) (hist t)) s"
    using assms wp_resolveAddress [of E "machine s" s]
    by (intro wp_conj etcd_quiet keep_resolveAddress emits_resolveAddress evidence_stable)
       (simp_all add: victim_facts [OF assms(1)] no_membership)
  then show ?thesis
    unfolding leaveViaVictim_def wp_bind [of theMachine] wp_theMachine wp_bind [of "resolveAddress E (machine s)"]
    by (rule wp_mono)
       (use assms(1) in \<open>auto simp: go_wp talos_defs victim_is_def
         split: sum.split option.splits intro!: etcd_justifiedI [where m = m and c = c and member = member]\<close>)
qed

lemma etcd_tryEtcdRemoval:
  assumes "victim_is m (machine s)" and "etcd_turn req m (hist s)"
    and "justified (etcd_justified E req) (hist s)"
  shows "wp (tryEtcdRemoval E r) (\<lambda>_ t. justified (etcd_justified E req) (hist t)) s"
proof -
  have config: "wp (Config E ns key) (\<lambda>_ t. machine t = machine s \<and> etcd_turn req m (hist t) \<and>
      justified (etcd_justified E req) (hist t)) s" for ns key
    using assms by (intro etcd_quiet keep_Config emits_Config evidence_stable) (simp_all add: no_membership)
  have act: "wp (leaveViaVictim E r cfg \<bind> (\<lambda>left.
        if left then Close c \<bind> (\<lambda>_. ret (Inr EtcdLeft))
        else EtcdRemoveMemberByID E c (EtcdCallTimeout r) (mem_id member) \<bind>
             (\<lambda>res. Close c \<bind> (\<lambda>_. case res of
                 Some e \<Rightarrow> ret (Inl (EWrap ''removing etcd member via peer'' (EExt e)))
               | None \<Rightarrow> ret (Inr EtcdRemoved)))))
      (\<lambda>_ t. justified (etcd_justified E req) (hist t)) u"
    if "victim_is m (machine u)" "etcd_turn req m (hist u)" "member_seen E m c member (hist u)"
      "justified (etcd_justified E req) (hist u)" for u cfg c member
    unfolding wp_bind [of "leaveViaVictim E r cfg"]
    by (rule wp_mono [OF etcd_leaveViaVictim [OF that]])
       (auto simp: go_wp realClient_defs split: option.split intro!: etcd_justifiedI [where m = m and c = c and member = member])
  have peer: "wp (findHealthyPeer E r cfg) (\<lambda>res t.
      (\<forall>c resp member. res = Inr (c, resp) \<and> findMember (uni_fold E) resp (hostnameCandidates m) = Some member \<longrightarrow>
         member_seen E m c member (hist t)) \<and>
      machine t = machine s \<and> etcd_turn req m (hist t) \<and> justified (etcd_justified E req) (hist t)) u"
    if "machine u = machine s" "etcd_turn req m (hist u)" "justified (etcd_justified E req) (hist u)" for u cfg
  proof -
    have "wp (findHealthyPeer E r cfg) (\<lambda>_ t. machine t = machine u \<and> etcd_turn req m (hist t) \<and>
        justified (etcd_justified E req) (hist t)) u"
      using that by (intro etcd_quiet keep_findHealthyPeer no_membership_findHealthyPeer evidence_stable)
    from wp_conj [OF wp_findHealthyPeer this] show ?thesis
      by (rule wp_mono) (use assms(1) that in \<open>auto simp: member_seen_def victim_facts; blast\<close>)
  qed
  show ?thesis
    unfolding tryEtcdRemoval_def wp_bind [of theMachine] wp_theMachine wp_bind [of "Config _ _ _"]
  proof (rule wp_mono [OF config], goal_cases)
    case (1 cfg t)
    with assms(1) show ?case
      by (auto simp: go_wp event_def Close_def victim_facts split: sum.split option.split
          intro!: wp_mono [OF peer] act [unfolded wp_bind])
  qed
qed

section \<open>The phase and the whole reconcile\<close>

lemma frame_victim_is: "frame m v \<Longrightarrow> wf_machine m \<Longrightarrow> victim_is m v"
  using frame_guards(3) [of m v] by (simp add: victim_is_def frame_def)

lemma etcd_justifies_quiet:
  "emits (\<lambda>x. \<not> is_membership_op x) p \<Longrightarrow> justifies (etcd_justified E req) p"
  by (erule justifies_emits) simp

lemmas etcd_justifies_ops =
  quiet_ops [THEN emits_mono [OF _ no_membership(2)], THEN etcd_justifies_quiet]

lemma etcd_justifies_reset: "justifies (etcd_justified E req) (resetPhase E r at)"
proof -
  have "emits (\<lambda>x. \<not> is_membership_op x) (tryReset E r)"
    by (rule emits_mono [OF reset_only_tryReset]) (case_tac x; simp)
  then show ?thesis
    unfolding resetPhase_def talos_wrappers
    by (intro justifies_rules etcd_justifies_ops etcd_justifies_quiet emits_theMachine) simp_all
qed

lemma etcd_ensureEtcdRemoved:
  assumes "victim_is m (machine s)" and "etcd_turn req m (hist s)"
    and "justified (etcd_justified E req) (hist s)"
  shows "wp (ensureEtcdRemoved E r at) (\<lambda>_ t. justified (etcd_justified E req) (hist t)) s"
proof -
  have rest: "justifies (etcd_justified E req) (case res of
        Inl err \<Rightarrow> now E \<bind> (\<lambda>t. if at + EtcdTimeout r < t
            then event EventTypeWarning EventEtcdMemberOrphaned \<bind> (\<lambda>_. concludeEtcd E EtcdOrphaned)
            else ret (Inl (ETransient err)))
      | Inr outcome \<Rightarrow> concludeEtcd E outcome)" for res
    unfolding talos_wrappers by (intro justifies_rules etcd_justifies_ops) simp_all
  show ?thesis
    unfolding ensureEtcdRemoved_def Let_def wp_bind [of "tryEtcdRemoval E r"]
    by (rule wp_mono [OF etcd_tryEtcdRemoval [OF assms]])
       (auto intro!: wp_mono [OF obeys_wp [OF rest]] simp: just_rel_def)
qed

lemma wp_serializeControlPlane:
  "wp (serializeControlPlane E)
     (\<lambda>res t. machine t = machine s \<and> (\<exists>new. hist t = hist s @ new) \<and>
        (\<forall>result. res = Inr result \<and> IsZero result \<longrightarrow>
          (\<exists>items. cp_listing (machine s) items \<in> set (hist t) \<and> serialHold items (machine s) = Inr False)) \<and>
        (justified (etcd_justified F req) (hist s) \<longrightarrow> justified (etcd_justified F req) (hist t))) s"
  unfolding serializeControlPlane_def listControlPlaneMachines_def
  by (auto simp: go_wp Let_def cp_listing_def IsZero_def hookWaitRequeue_def Second_def ZeroResult_def
      split: sum.split bool.split)

lemma etcd_etcdPhase:
  assumes "victim_is m (machine s)" and "OGetMachine req (Inr m) \<in> set (hist s)"
    and "\<not> del \<Longrightarrow> OGetCluster (clusterKeyFor m) (Inr \<lparr>cl_deletionTimestamp = None\<rparr>) \<in> set (hist s)"
    and "justified (etcd_justified E req) (hist s)"
  shows "wp (etcdPhase E r at del) (\<lambda>_ t. justified (etcd_justified E req) (hist t)) s"
proof -
  have skip: "justifies (etcd_justified E req) (stampPhase E EtcdAnnotation EtcdSkippedClusterDelete \<bind>
       (\<lambda>res. case res of Inl err \<Rightarrow> ret (Inl err)
          | Inr _ \<Rightarrow> event EventTypeNormal EventEtcdSkippedClusterDelete \<bind>
              (\<lambda>_. emit (OMetric (etcdOutcomes EtcdSkippedClusterDelete)) \<bind> (\<lambda>_. ret (Inr ZeroResult)))))"
    unfolding event_def by (intro justifies_rules etcd_justifies_ops) simp_all
  have work: "wp (serializeControlPlane E \<bind>
       (\<lambda>res. case res of Inl err \<Rightarrow> ret (Inl err)
          | Inr result \<Rightarrow> if \<not> IsZero result then ret (Inr result) else ensureEtcdRemoved E r at))
       (\<lambda>_ t. justified (etcd_justified E req) (hist t)) s" if "\<not> del" "IsControlPlane (machine s)"
    unfolding wp_bind
  proof (rule wp_mono [OF wp_serializeControlPlane [where F = E and req = req]], goal_cases)
    case (1 res t)
    have "etcd_turn req m (hist t)" if "res = Inr result" "IsZero result" for result
      using 1 that assms \<open>\<not> del\<close> \<open>IsControlPlane (machine s)\<close>
      by (auto simp: etcd_turn_def victim_facts)
    with 1 assms show ?case
      by (auto simp: wp_return split: sum.split intro!: etcd_ensureEtcdRemoved)
  qed
  show ?thesis
    unfolding etcdPhase_def wp_bind [of theMachine] wp_theMachine
    using assms(4) work wp_mono [OF obeys_wp [OF skip, of s], of "\<lambda>_ t. justified (etcd_justified E req) (hist t)"]
    by (auto simp: wp_return just_rel_def)
qed

lemma wp_clusterDeleting:
  "wp (clusterDeleting E)
     (\<lambda>res t. machine t = machine s \<and> (\<exists>new. hist t = hist s @ new) \<and>
        (res = Inr False \<longrightarrow>
          OGetCluster (clusterKeyFor (machine s)) (Inr \<lparr>cl_deletionTimestamp = None\<rparr>) \<in> set (hist t)) \<and>
        (justified (etcd_justified F req) (hist s) \<longrightarrow> justified (etcd_justified F req) (hist t))) s"
  unfolding clusterDeleting_def by (auto simp: go_wp split: sum.split)

text \<open>What a whole teardown relies on: the Machine read at its start, in hand up to annotations of the controller.\<close>

definition etcd_inv :: "env \<Rightarrow> ObjectKey \<Rightarrow> Machine \<Rightarrow> rstate \<Rightarrow> bool" where
  "etcd_inv E req m s =
     (frame m (machine s) \<and> OGetMachine req (Inr m) \<in> set (hist s) \<and> justified (etcd_justified E req) (hist s))"

lemma etcd_fromReset:
  assumes "justified (etcd_justified E req) (hist s)"
  shows "wp (fromReset E r at) (\<lambda>_ t. justified (etcd_justified E req) (hist t)) s"
proof -
  have "justifies (etcd_justified E req) (fromReset E r at)"
    by (intro justifies_rules etcd_justifies_ops etcd_justifies_reset)
  from wp_mono [OF obeys_wp [OF this]] assms show ?thesis by (auto simp: just_rel_def)
qed

lemma etcd_fromCluster:
  assumes "wf_machine m" and "etcd_inv E req m s"
  shows "wp (fromCluster E r at) (\<lambda>_ t. justified (etcd_justified E req) (hist t)) s"
  unfolding wp_bind [of "clusterDeleting E"]
proof (rule wp_mono [OF wp_clusterDeleting [where F = E and req = req]], goal_cases)
  case (1 res t)
  have v: "victim_is m (machine t)"
    using 1 assms frame_victim_is [OF _ assms(1)] by (simp add: etcd_inv_def)
  have key: "clusterKeyFor (machine s) = clusterKeyFor m"
    using 1 victim_facts(2) [OF v] by simp
  show ?case
  proof (cases res)
    case (Inl err)
    with 1 assms(2) show ?thesis by (simp add: wp_return etcd_inv_def)
  next
    case (Inr clusterDel)
    have "wp (etcdPhase E r at clusterDel) (\<lambda>_ t. justified (etcd_justified E req) (hist t)) t"
      using 1 v assms(2) Inr by (intro etcd_etcdPhase) (auto simp: key etcd_inv_def)
    then show ?thesis
      unfolding Inr sum.case wp_bind [of "etcdPhase _ _ _ _"]
      by (rule wp_mono) (auto simp: wp_return split: sum.split intro!: etcd_fromReset)
  qed
qed

lemma etcd_runPhases:
  assumes "wf_machine m" and "etcd_inv E req m s"
  shows "wp (runPhases E r) (\<lambda>_ t. justified (etcd_justified E req) (hist t)) s"
proof -
  have observed: "justifies (etcd_justified E req) (ensureObservedAt E)"
    by (rule etcd_justifies_ops)
  have "wp (ensureObservedAt E) (\<lambda>_. etcd_inv E req m) s"
    unfolding etcd_inv_def
  proof (intro wp_conj)
    show "wp (ensureObservedAt E) (\<lambda>_ t. frame m (machine t)) s"
      by (rule wp_mono [OF obeys_wp [OF frame_ensureObservedAt]])
         (use assms(2) in \<open>auto simp: frame_rel_def etcd_inv_def intro: frame_trans\<close>)
    show "wp (ensureObservedAt E) (\<lambda>_ t. OGetMachine req (Inr m) \<in> set (hist t)) s"
      using assms(2)
      by (intro grows_stable [where A = "\<lambda>h. OGetMachine req (Inr m) \<in> set h"] evidence_stable grows_ops)
         (simp add: etcd_inv_def)
    show "wp (ensureObservedAt E) (\<lambda>_ t. justified (etcd_justified E req) (hist t)) s"
      by (rule wp_mono [OF obeys_wp [OF observed]]) (use assms(2) in \<open>simp add: just_rel_def etcd_inv_def\<close>)
  qed
  then show ?thesis
    unfolding runPhases_def wp_bind [of "ensureObservedAt E"]
    by (rule wp_mono)
       (auto simp: wp_return etcd_inv_def split: sum.split intro!: etcd_fromCluster [OF assms(1)])
qed

lemma etcd_reconcileDeleting:
  assumes "wf_machine (machine s)" and "OGetMachine req (Inr (machine s)) \<in> set (hist s)"
    and "justified (etcd_justified E req) (hist s)"
  shows "wp (reconcileDeleting E r) (\<lambda>_ t. justified (etcd_justified E req) (hist t)) s"
proof -
  have stamp: "justifies (etcd_justified E req) (lateStamp E r)"
    by (rule etcd_justifies_ops)
  have "wp (lateStamp E r) (\<lambda>_ t. frame (machine s) (machine t) \<and> OGetMachine req (Inr (machine s)) \<in> set (hist t) \<and>
      justified (etcd_justified E req) (hist t)) s"
  proof (intro wp_conj)
    show "wp (lateStamp E r) (\<lambda>_ t. frame (machine s) (machine t)) s"
      by (rule wp_mono [OF obeys_wp [OF frame_lateStamp]]) (simp add: frame_rel_def)
    show "wp (lateStamp E r) (\<lambda>_ t. OGetMachine req (Inr (machine s)) \<in> set (hist t)) s"
      using assms(2)
      by (intro grows_stable [where A = "\<lambda>h. OGetMachine req (Inr (machine s)) \<in> set h"] evidence_stable grows_ops)
    show "wp (lateStamp E r) (\<lambda>_ t. justified (etcd_justified E req) (hist t)) s"
      by (rule wp_mono [OF obeys_wp [OF stamp]]) (use assms(3) in \<open>simp add: just_rel_def\<close>)
  qed
  then show ?thesis
    unfolding reconcileDeleting_def wp_bind [of "lateStamp E r"]
    by (rule wp_mono)
       (auto simp: wp_return wp_bind [of theMachine] wp_theMachine split: sum.split bool.split
        intro!: etcd_runPhases [OF assms(1)], simp add: etcd_inv_def)
qed

lemma etcd_Reconcile:
  assumes "\<And>m. get_machine E [] req = Inr m \<Longrightarrow> wf_machine m"
  shows "justified (etcd_justified E req) (reconcile_trace E r req [])"
proof (rule reconcile_rule, rule wp_ReconcileI)
  fix m
  have normal: "justifies (etcd_justified E req) (reconcileNormal E r)"
    by (rule etcd_justifies_ops)
  show "wp (reconcileNormal E r) (\<lambda>res t. \<forall>new. hist t = [] @ new \<longrightarrow> justified (etcd_justified E req) new)
      (fetched (start []) req m)"
    by (rule wp_mono [OF obeys_wp [OF normal]]) (simp add: just_rel_def)
  assume "get_machine E (hist (start [])) req = Inr m"
  then show "wp (reconcileDeleting E r) (\<lambda>res t. \<forall>new. hist t = [] @ new \<longrightarrow> justified (etcd_justified E req) new)
      (fetched (start []) req m)"
    using assms by (auto intro!: wp_mono [OF etcd_reconcileDeleting])
qed auto

end
