(* ===== verification/Reconciler_Reset.thy ===== *)
theory Reconciler_Reset
  imports Reconciler_Etcd
begin

text \<open>
  The reset phase: a node is wiped at most once per reconcile, never again once the conclusion is
  recorded, with the fixed request, at the Machine's own address, and (control plane) only after
  the etcd phase has been concluded on the API server.
\<close>

section \<open>Bookkeeping annotations stay\<close>

text \<open>An annotation that is no pre-terminate hook is never taken away.\<close>

definition has_rel :: "string \<Rightarrow> rstate \<Rightarrow> rstate \<Rightarrow> bool" where
  "has_rel k s t = (mhas (m_annotations (machine s)) k \<longrightarrow> mhas (m_annotations (machine t)) k)"

interpretation has: effect "has_rel k"
  by unfold_locales (simp_all add: has_rel_def)

lemma has_keep: "keeps_machine m \<Longrightarrow> obeys (has_rel k) m"
  by (simp add: obeys_def keep_rel_def has_rel_def)

lemma has_patchAnnotations:
  assumes "\<And>ann ann'. f ann = Some ann' \<Longrightarrow> mhas ann k \<Longrightarrow> mhas ann' k"
  shows "obeys (has_rel k) (patchAnnotations E f)"
  by (rule obeysI)
     (auto simp: patchAnnotations_def go_wp Let_def has_rel_def split: option.split dest: assms)

lemma has_stampPhase: "obeys (has_rel k) (stampPhase E k' v)"
  unfolding stampPhase_def by (rule has_patchAnnotations) (auto split: if_splits)

lemma not_legacy: "\<not> HasPrefix k PreTerminateDeleteHookAnnotationPrefix \<Longrightarrow> k \<notin> set (legacyHookKeys m)"
  by (auto simp: legacyHookKeys_def set_legacyKeys_in)

lemmas has_quiet = has_keep [OF keep_theMachine] has_keep [OF keep_event] has_keep [OF keep_now]
  has_keep [OF keep_recordEtcdOutcome] has_keep [OF keep_emit] has_keep [OF keep_clusterDeleting]
  has_keep [OF keep_serializeControlPlane] has_keep [OF keep_ensureCredentials]
  has_keep [OF keep_tryEtcdRemoval] has_keep [OF keep_tryReset]

lemmas has_rules = has.eff_rules has_quiet has_stampPhase

text \<open>Every key that is no pre-terminate hook.\<close>

abbreviation no_hook_key :: "string \<Rightarrow> bool" where
  "no_hook_key k \<equiv> \<not> HasPrefix k PreTerminateDeleteHookAnnotationPrefix"

lemma no_hook_key_neq: "no_hook_key k \<Longrightarrow> k \<noteq> HookAnnotation"
  by auto

lemma has_ensureHook: "no_hook_key k \<Longrightarrow> obeys (has_rel k) (ensureHook E)"
  unfolding ensureHook_def
  by (intro has_rules has_patchAnnotations) (auto simp: not_legacy)

lemma has_release: "no_hook_key k \<Longrightarrow> obeys (has_rel k) (release E)"
  unfolding release_def
  by (intro has_rules has_patchAnnotations) (auto simp: not_legacy)

lemma has_ensureObservedAt: "obeys (has_rel k) (ensureObservedAt E)"
  unfolding ensureObservedAt_def by (intro has_rules has_patchAnnotations) auto

lemma has_etcdPhase: "obeys (has_rel k) (etcdPhase E r at del)"
  unfolding etcdPhase_def ensureEtcdRemoved_def concludeEtcd_def by (intro has_rules)

lemma has_lateStamp: "no_hook_key k \<Longrightarrow> obeys (has_rel k) (lateStamp E r)"
  unfolding lateStamp_def by (intro has_rules has_ensureHook)

section \<open>Evidence for a reset\<close>

definition reset_evidence :: "Reconciler \<Rightarrow> ObjectKey \<Rightarrow> history \<Rightarrow> talos_client \<Rightarrow> duration \<Rightarrow> reset_request \<Rightarrow> bool" where
  "reset_evidence r req h c d q =
     (q = resetRequest \<and> d = ResetCallTimeout r \<and> \<not> list_ex is_reset h \<and>
      (\<exists>m. OGetMachine req (Inr m) \<in> set h \<and> \<not> mhas (m_annotations m) ResetAnnotation \<and>
           address_evidence h m (cl_endpoint c) \<and>
           (IsControlPlane m \<longrightarrow> (\<exists>v. persisted h (ObjectKeyFromObject m) EtcdAnnotation v))))"

fun reset_justified :: "Reconciler \<Rightarrow> ObjectKey \<Rightarrow> history \<Rightarrow> obs \<Rightarrow> bool" where
  "reset_justified r req h (OResetGeneric c d q _) = reset_evidence r req h c d q"
| "reset_justified r req h _ = True"

lemma reset_justified_other: "\<not> is_reset x \<Longrightarrow> reset_justified r req h x"
  by (cases x) simp_all

text \<open>What holds when the reset is about to be tried.\<close>

definition reset_ready :: "ObjectKey \<Rightarrow> Machine \<Rightarrow> history \<Rightarrow> bool" where
  "reset_ready req m h =
     (\<not> list_ex is_reset h \<and> OGetMachine req (Inr m) \<in> set h \<and>
      (IsControlPlane m \<longrightarrow> (\<exists>v. persisted h (ObjectKeyFromObject m) EtcdAnnotation v)))"

lemma reset_quiet:
  assumes "keeps_machine p" and "emits (\<lambda>x. \<not> is_reset x) p"
    and "reset_ready req m (hist s)" and "justified (reset_justified r req) (hist s)"
  shows "wp p (\<lambda>_ t. machine t = machine s \<and> reset_ready req m (hist t) \<and>
           justified (reset_justified r req) (hist t)) s"
proof (rule wpI)
  fix a t
  assume run: "run_state p s = (a, t)"
  have "justifies (reset_justified r req) p"
    by (rule justifies_emits [OF assms(2)]) (rule reset_justified_other)
  with obeysD [OF this run] obeysD [OF assms(1) run] obeysD [OF assms(2) run] assms(3,4)
  show "machine t = machine s \<and> reset_ready req m (hist t) \<and> justified (reset_justified r req) (hist t)"
    by (auto simp: keep_rel_def just_rel_def emits_rel_def reset_ready_def list_ex_iff list_all_iff)
qed

lemma reset_Config:
  fixes u :: rstate
  assumes "reset_ready req m (hist u)" and "justified (reset_justified r req) (hist u)" and "address_evidence (hist u) m a"
  shows "wp (Config E ns key) (\<lambda>_ t. address_evidence (hist t) m a \<and> machine t = machine u \<and>
      reset_ready req m (hist t) \<and> justified (reset_justified r req) (hist t)) u"
proof -
  have "wp (Config E ns key) (\<lambda>_ t. machine t = machine u \<and> reset_ready req m (hist t) \<and>
      justified (reset_justified r req) (hist t)) u"
    using assms by (intro reset_quiet keep_Config emits_Config) simp_all
  moreover have "wp (Config E ns key) (\<lambda>_ t. address_evidence (hist t) m a) u"
    using assms by (intro grows_stable [where A = "\<lambda>h. address_evidence h m a"] emits_Config) (simp_all add: stable_def)
  ultimately show ?thesis by (simp add: wp_conj)
qed

lemma reset_dialled:
  assumes "address_evidence (hist u) m a" and "reset_ready req m (hist u)"
    and "justified (reset_justified r req) (hist u)" and "\<not> mhas (m_annotations m) ResetAnnotation"
  shows "wp (TalosFactory E cfg a \<bind> (\<lambda>dialed. case dialed of
        Inl e \<Rightarrow> ret (Inl (EExt e))
      | Inr victimClient \<Rightarrow> now E \<bind> (\<lambda>started.
          ResetGeneric E victimClient (ResetCallTimeout r) resetRequest \<bind> (\<lambda>res. case res of
              Some e \<Rightarrow> Close victimClient \<bind> (\<lambda>_. ret (Inl (EWrap ''resetting node'' (EExt e))))
            | None \<Rightarrow> now E \<bind> (\<lambda>finished. emit (OMetric (resetDuration (finished - started))) \<bind> (\<lambda>_.
                Close victimClient \<bind> (\<lambda>_. ret (Inr ResetDone))))))))
    (\<lambda>_ t. justified (reset_justified r req) (hist t)) u"
  using assms
  by (auto simp: go_wp talos_defs now_def reset_evidence_def reset_ready_def
      split: sum.split option.split)

lemma reset_tryReset:
  assumes "same_but_annotations m (machine s)" and "\<not> mhas (m_annotations m) ResetAnnotation"
    and "reset_ready req m (hist s)" and "justified (reset_justified r req) (hist s)"
  shows "wp (tryReset E r) (\<lambda>_ t. justified (reset_justified r req) (hist t)) s"
proof -
  have addr: "address_evidence h (machine s) a = address_evidence h m a" for h a
    using assms(1) address_evidence_annotations [where m = m and x = "m_annotations (machine s)"]
    by (simp add: same_but_annotations_def)
  have resolve: "wp (resolveAddress E (machine s)) (\<lambda>res t.
      (\<forall>a. res = Inr a \<and> a \<noteq> '''' \<longrightarrow> address_evidence (hist t) m a) \<and>
      machine t = machine s \<and> reset_ready req m (hist t) \<and> justified (reset_justified r req) (hist t)) s"
    using assms(3,4) wp_resolveAddress [of E "machine s" s]
    by (intro wp_conj reset_quiet keep_resolveAddress emits_resolveAddress) (simp_all add: addr)
  show ?thesis
    unfolding tryReset_def wp_bind [of theMachine] wp_theMachine wp_bind [of "resolveAddress _ _"]
  proof (rule wp_mono [OF resolve], goal_cases)
    case (1 res t)
    show ?case
    proof (cases res)
      case (Inr a)
      show ?thesis
      proof (cases "a = ''''")
        case False
        with 1 Inr have t: "machine t = machine s" "reset_ready req m (hist t)"
          "justified (reset_justified r req) (hist t)" "address_evidence (hist t) m a" by auto
        show ?thesis
          unfolding Inr sum.case if_not_P [OF False] wp_bind [of "Config _ _ _"]
          by (rule wp_mono [OF reset_Config [OF t(2-4)]])
             (auto simp: wp_return wp_bind [of "emit _"] event_def wp_emit split: sum.split intro!: reset_dialled dest: assms(2) [THEN notE])
      qed (use 1 Inr in \<open>simp add: wp_return\<close>)
    qed (use 1 in \<open>simp add: wp_return\<close>)
  qed
qed

section \<open>The phases before the reset\<close>

definition reset_inv :: "env \<Rightarrow> Reconciler \<Rightarrow> ObjectKey \<Rightarrow> Machine \<Rightarrow> rstate \<Rightarrow> bool" where
  "reset_inv E r req m s =
     (rel_inv E s \<and> frame m (machine s) \<and>
      (mhas (m_annotations m) ResetAnnotation \<longrightarrow> mhas (m_annotations (machine s)) ResetAnnotation) \<and>
      OGetMachine req (Inr m) \<in> set (hist s) \<and> \<not> list_ex is_reset (hist s) \<and>
      justified (reset_justified r req) (hist s))"

lemma reset_phase_step:
  assumes "wp p (\<lambda>res t. ok res \<longrightarrow> rel_inv E t \<and> working (machine t) \<and> (due \<longrightarrow> mhas (m_annotations (machine t)) k)) s"
    and "framed p" and "obeys (has_rel ResetAnnotation) p" and "emits (\<lambda>x. \<not> is_reset x) p"
    and "reset_inv E r req m s"
  shows "wp p (\<lambda>res t. justified (reset_justified r req) (hist t) \<and>
           (ok res \<longrightarrow> reset_inv E r req m t \<and> working (machine t) \<and> (due \<longrightarrow> mhas (m_annotations (machine t)) k))) s"
proof (rule wpI)
  fix res t
  assume run: "run_state p s = (res, t)"
  have "justifies (reset_justified r req) p"
    by (rule justifies_emits [OF assms(4)]) (rule reset_justified_other)
  from obeysD [OF this run] have "justified (reset_justified r req) (hist t)"
    using assms(5) by (simp add: just_rel_def reset_inv_def)
  moreover have "frame m (machine t)"
    using obeysD [OF assms(2) run] assms(5) by (auto simp: frame_rel_def reset_inv_def intro: frame_trans)
  moreover have "OGetMachine req (Inr m) \<in> set (hist t) \<and> \<not> list_ex is_reset (hist t)"
    using obeysD [OF assms(4) run] assms(5)
    by (auto simp: emits_rel_def reset_inv_def list_ex_iff list_all_iff)
  ultimately show "justified (reset_justified r req) (hist t) \<and>
      (ok res \<longrightarrow> reset_inv E r req m t \<and> working (machine t) \<and> (due \<longrightarrow> mhas (m_annotations (machine t)) k))"
    using wp_run [OF run assms(1)] obeysD [OF assms(3) run] assms(5)
    by (auto simp: reset_inv_def has_rel_def)
qed

lemma no_reset_ops:
  "emits (\<lambda>x. \<not> is_reset x) (lateStamp E r)" "emits (\<lambda>x. \<not> is_reset x) (reconcileNormal E r)"
  "emits (\<lambda>x. \<not> is_reset x) (ensureObservedAt E)" "emits (\<lambda>x. \<not> is_reset x) (clusterDeleting E)"
  "emits (\<lambda>x. \<not> is_reset x) (release E)" "emits (\<lambda>x. \<not> is_reset x) (concludeReset E v)"
  "emits (\<lambda>x. \<not> is_reset x) (etcdPhase E r at del)"
proof -
  have etcd: "emits (\<lambda>x. \<not> is_reset x) (tryEtcdRemoval E r)"
    by (rule emits_mono [OF etcd_only_tryEtcdRemoval]) (case_tac x; simp)
  note quiet = quiet_ops [THEN emits_mono [OF _ not_talos(2)]]
  show "emits (\<lambda>x. \<not> is_reset x) (etcdPhase E r at del)"
    unfolding etcdPhase_def ensureEtcdRemoved_def talos_wrappers
    by (intro emits_rules emits_theMachine quiet etcd) simp_all
  show "emits (\<lambda>x. \<not> is_reset x) (lateStamp E r)" "emits (\<lambda>x. \<not> is_reset x) (reconcileNormal E r)"
    "emits (\<lambda>x. \<not> is_reset x) (ensureObservedAt E)" "emits (\<lambda>x. \<not> is_reset x) (clusterDeleting E)"
    "emits (\<lambda>x. \<not> is_reset x) (release E)" "emits (\<lambda>x. \<not> is_reset x) (concludeReset E v)"
    by (rule quiet; assumption)+
qed

lemma bookkeeping_no_hook: "no_hook_key ResetAnnotation"
  by simp

lemma reset_resetPhase:
  assumes "wf_machine m" and "reset_inv E r req m s"
    and "IsControlPlane (machine s) \<longrightarrow> mhas (m_annotations (machine s)) EtcdAnnotation"
  shows "wp (resetPhase E r at) (\<lambda>_ t. justified (reset_justified r req) (hist t)) s"
proof (cases "mhas (m_annotations (machine s)) ResetAnnotation")
  case True
  with assms(2) show ?thesis by (simp add: resetPhase_def go_wp reset_inv_def)
next
  case False
  have same: "same_but_annotations m (machine s)"
    using assms(1,2) by (simp add: reset_inv_def frame_def)
  have "\<exists>v. persisted (hist s) (ObjectKeyFromObject m) EtcdAnnotation v" if "IsControlPlane m"
    using synced_concluded [of s EtcdAnnotation] assms that same_but_annotations_facts [OF same]
    by (auto simp: reset_inv_def rel_inv_def concluded_def)
  then have ready: "reset_ready req m (hist s)"
    using assms(2) by (auto simp: reset_ready_def reset_inv_def)
  have rest: "justifies (reset_justified r req) (case res of
        Inl err \<Rightarrow> now E \<bind> (\<lambda>t. if \<not> at + ResetTimeout r < t then ret (Inl (ETransient err))
            else event EventTypeWarning EventResetSkipped \<bind> (\<lambda>_. concludeReset E ResetSkippedTimeout))
      | Inr outcome \<Rightarrow> concludeReset E outcome)" for res
    unfolding talos_wrappers
    by (intro justifies_rules justifies_emits [OF no_reset_ops(6)] reset_justified_other) simp_all
  have "wp (tryReset E r) (\<lambda>_ t. justified (reset_justified r req) (hist t)) s"
    using False assms(2) by (intro reset_tryReset [OF same _ ready]) (auto simp: reset_inv_def)
  from wp_mono [OF this] show ?thesis
    unfolding resetPhase_def Let_def wp_bind [of theMachine] wp_theMachine if_not_P [OF False] wp_bind [of "tryReset E r"]
    by (rule_tac wp_mono [OF \<open>wp (tryReset E r) _ s\<close>])
       (auto intro!: wp_mono [OF obeys_wp [OF rest]] simp: just_rel_def)
qed

lemma reset_fromEtcd:
  assumes "wf_machine m" and "reset_inv E r req m s" and "working (machine s)"
  shows "wp (fromEtcd E r at del)
          (\<lambda>_ t. justified (reset_justified r req) (hist t)) s"
proof -
  have cp: "IsControlPlane (machine t) = IsControlPlane m" if "reset_inv E r req m t" for t
    using that assms(1) by (auto simp: reset_inv_def frame_def same_but_annotations_facts)
  have "wp (etcdPhase E r at del) (\<lambda>res t. is_zero_ok res \<longrightarrow> rel_inv E t \<and> working (machine t) \<and>
      (IsControlPlane m \<longrightarrow> mhas (m_annotations (machine t)) EtcdAnnotation)) s"
    using assms(2,3) cp [OF assms(2)]
    by (intro wp_mono [OF phase_etcdPhase]) (auto simp: reset_inv_def phase_ok_def intro: phase_ok_working)
  note etcd = reset_phase_step [OF this frame_phases(1) has_etcdPhase no_reset_ops(7) assms(2)]
  have rest: "justifies (reset_justified r req) (case res of Inl err \<Rightarrow> ret (Inl err)
      | Inr _ \<Rightarrow> release E \<bind> (\<lambda>rel. case rel of Inl err \<Rightarrow> ret (Inl err) | Inr _ \<Rightarrow> ret (Inr ZeroResult)))"
    for res :: "go_error + unit"
    by (intro justifies_rules justifies_emits [OF no_reset_ops(5)] reset_justified_other)
  have reset: "wp (fromReset E r at)
      (\<lambda>_ t. justified (reset_justified r req) (hist t)) t"
    if "reset_inv E r req m t" "IsControlPlane m \<longrightarrow> mhas (m_annotations (machine t)) EtcdAnnotation" for t
    unfolding wp_bind [of "resetPhase E r at"]
    by (rule wp_mono [OF reset_resetPhase [OF assms(1) that(1)]])
       (use that cp [OF that(1)] in \<open>auto intro!: wp_mono [OF obeys_wp [OF rest]] simp: just_rel_def\<close>)
  show ?thesis
    unfolding wp_bind [of "etcdPhase E r at del"]
    by (rule wp_mono [OF etcd]) (auto simp: wp_return split: sum.split intro!: reset)
qed

lemma reset_runPhases:
  assumes "wf_machine m" and "reset_inv E r req m s" and "working (machine s)"
  shows "wp (runPhases E r) (\<lambda>_ t. justified (reset_justified r req) (hist t)) s"
proof -
  have inv: "rel_inv E s" using assms(2) by (simp add: reset_inv_def)
  have "wp (ensureObservedAt E) (\<lambda>res t. \<not> isl res \<longrightarrow> rel_inv E t \<and> working (machine t) \<and>
      (False \<longrightarrow> mhas (m_annotations (machine t)) ObservedAtAnnotation)) s"
    by (rule wp_mono [OF phase_ensureObservedAt [OF inv assms(3)]])
       (use assms(3) in \<open>auto simp: phase_ok_def intro: phase_ok_working\<close>)
  note first = reset_phase_step [OF this frame_ensureObservedAt has_ensureObservedAt no_reset_ops(3) assms(2)]
  have second: "wp (clusterDeleting E) (\<lambda>res t. justified (reset_justified r req) (hist t) \<and>
      (True \<longrightarrow> reset_inv E r req m t \<and> working (machine t) \<and> (False \<longrightarrow> mhas (m_annotations (machine t)) ResetAnnotation))) t"
    if "reset_inv E r req m t" "working (machine t)" for t
  proof (rule reset_phase_step [OF _ _ has_keep [OF keep_clusterDeleting] no_reset_ops(4) that(1)])
    show "wp (clusterDeleting E) (\<lambda>res t. True \<longrightarrow> rel_inv E t \<and> working (machine t) \<and>
        (False \<longrightarrow> mhas (m_annotations (machine t)) ResetAnnotation)) t"
      using that by (intro wp_mono [OF rel_inv_quiet [OF keep_clusterDeleting no_patch_ops(5)]]) (auto simp: reset_inv_def)
  qed (rule frame_rules)
  have rest: "wp (fromCluster E r at)
      (\<lambda>_ t. justified (reset_justified r req) (hist t)) t" if "reset_inv E r req m t" "working (machine t)" for t at
    unfolding wp_bind [of "clusterDeleting E"]
    by (rule wp_mono [OF second [OF that]]) (auto simp: wp_return split: sum.split intro!: reset_fromEtcd [OF assms(1)])
  show ?thesis
    unfolding runPhases_def wp_bind [of "ensureObservedAt E"]
    by (rule wp_mono [OF first]) (auto simp: wp_return split: sum.split intro!: rest)
qed

lemma reset_reconcileDeleting:
  assumes "wf_machine (machine s)" and "reset_inv E r req (machine s) s" and "m_deletionTimestamp (machine s) \<noteq> None"
  shows "wp (reconcileDeleting E r) (\<lambda>_ t. justified (reset_justified r req) (hist t)) s"
proof -
  have "wp (lateStamp E r) (\<lambda>res t. res = Inr True \<longrightarrow> rel_inv E t \<and> working (machine t) \<and>
      (False \<longrightarrow> mhas (m_annotations (machine t)) ResetAnnotation)) s"
    using assms(2,3) by (intro wp_mono [OF release_lateStamp]) (auto simp: reset_inv_def split: sum.splits)
  note stamp = reset_phase_step [OF this frame_lateStamp has_lateStamp [OF bookkeeping_no_hook] no_reset_ops(1) assms(2)]
  show ?thesis
    unfolding reconcileDeleting_def wp_bind [of "lateStamp E r"]
    by (rule wp_mono [OF stamp])
       (auto simp: wp_return wp_bind [of theMachine] wp_theMachine split: sum.split bool.split
        intro!: reset_runPhases [OF assms(1)])
qed

lemma reset_Reconcile:
  assumes "\<And>m. get_machine E [] req = Inr m \<Longrightarrow> wf_machine m"
  shows "justified (reset_justified r req) (reconcile_trace E r req [])"
proof (rule reconcile_rule, rule wp_ReconcileI)
  fix m
  have normal: "justifies (reset_justified r req) (reconcileNormal E r)"
    by (rule justifies_emits [OF no_reset_ops(2)]) (rule reset_justified_other)
  show "wp (reconcileNormal E r) (\<lambda>res t. \<forall>new. hist t = [] @ new \<longrightarrow> justified (reset_justified r req) new)
      (fetched (start []) req m)"
    by (rule wp_mono [OF obeys_wp [OF normal]]) (simp add: just_rel_def)
  assume "get_machine E (hist (start [])) req = Inr m"
  moreover assume "m_deletionTimestamp m \<noteq> None"
  moreover have "reset_inv E r req m (fetched (start []) req m)"
    by (simp add: reset_inv_def rel_inv_def synced_def current_def held_def)
  ultimately show "wp (reconcileDeleting E r) (\<lambda>res t. \<forall>new. hist t = [] @ new \<longrightarrow> justified (reset_justified r req) new)
      (fetched (start []) req m)"
    using assms by (auto intro!: wp_mono [OF reset_reconcileDeleting])
qed auto

end
