(* ===== verification/Reconciler_Connections.thy ===== *)
theory Reconciler_Connections
  imports Reconciler_Guards "HOL-Library.Multiset"
begin

text \<open>
  Connections: a monitor of the Talos clients in use. Every call goes through a client that has been dialled and not
  yet closed, and every client a reconcile dials is closed again, once, on every path.
\<close>

section \<open>The monitor\<close>

fun uses :: "obs \<Rightarrow> talos_client option" where
  "uses (OServiceInfo c _ _ _) = Some c"
| "uses (OEtcdMemberList c _ _) = Some c"
| "uses (OEtcdForfeitLeadership c _ _) = Some c"
| "uses (OEtcdLeaveCluster c _ _) = Some c"
| "uses (OEtcdRemoveMemberByID c _ _ _) = Some c"
| "uses (OResetGeneric c _ _ _) = Some c"
| "uses (OClose c) = Some c"
| "uses _ = None"

fun opened :: "obs \<Rightarrow> talos_client multiset" where
  "opened (ODial _ (Inr c)) = {#c#}"
| "opened _ = {#}"

fun closed :: "obs \<Rightarrow> talos_client multiset" where
  "closed (OClose c) = {#c#}"
| "closed _ = {#}"

text \<open>The clients open after a history, from those open before it; \<open>None\<close> on a call through a client that is not open.\<close>

fun sessions :: "talos_client multiset \<Rightarrow> history \<Rightarrow> talos_client multiset option" where
  "sessions Y [] = Some Y"
| "sessions Y (x # xs) =
     (case uses x of
        Some c \<Rightarrow> if c \<in># Y then sessions (Y - closed x) xs else None
      | None \<Rightarrow> sessions (Y + opened x) xs)"

lemma sessions_append:
  "sessions Y (xs @ ys) = (case sessions Y xs of None \<Rightarrow> None | Some Z \<Rightarrow> sessions Z ys)"
  by (induction xs arbitrary: Y) (auto split: option.split)

lemma sessions_mono: "sessions Y xs = Some X \<Longrightarrow> sessions (Z + Y) xs = Some (Z + X)"
proof (induction xs arbitrary: Y)
  case (Cons x xs)
  show ?case
  proof (cases "uses x")
    case None
    with Cons show ?thesis by (simp add: add.assoc)
  next
    case (Some c)
    with Cons.prems have c: "c \<in># Y" "sessions (Y - closed x) xs = Some X" by (simp_all split: if_splits)
    have "closed x \<subseteq># Y" using Some c(1) by (cases x rule: closed.cases) auto
    then have "Z + Y - closed x = Z + (Y - closed x)" by (rule multiset_diff_union_assoc)
    with Some c Cons.IH [of "Y - closed x"] show ?thesis by simp
  qed
qed simp

text \<open>\<open>unclosed X s t\<close>: between \<open>s\<close> and \<open>t\<close> the clients \<open>X\<close> were opened and not closed, and no other client was used.\<close>

definition unclosed :: "talos_client multiset \<Rightarrow> rstate \<Rightarrow> rstate \<Rightarrow> bool" where
  "unclosed X s t = (\<exists>new. hist t = hist s @ new \<and> sessions {#} new = Some X)"

abbreviation balanced_rel :: "rstate \<Rightarrow> rstate \<Rightarrow> bool" where
  "balanced_rel \<equiv> unclosed {#}"

abbreviation balanced :: "'a rprog \<Rightarrow> bool" where
  "balanced \<equiv> obeys balanced_rel"

lemma unclosed_trans: "unclosed X s t \<Longrightarrow> unclosed Y t u \<Longrightarrow> unclosed (X + Y) s u"
  unfolding unclosed_def using sessions_mono [of "{#}" _ Y X] by (fastforce simp: sessions_append)

lemma unclosed_refl [simp]: "unclosed {#} s s"
  by (simp add: unclosed_def)

lemma unclosed_step [simp]:
  "unclosed Y s t \<Longrightarrow> unclosed X s (t\<lparr>hist := hist t @ xs\<rparr>) = (sessions Y xs = Some X)"
  "unclosed X s (s\<lparr>hist := hist s @ xs\<rparr>) = (sessions {#} xs = Some X)"
  "unclosed X s (s\<lparr>machine := m\<rparr>) = (X = {#})"
  by (auto simp: unclosed_def sessions_append)

interpretation balanced: effect balanced_rel
  using unclosed_trans [of "{#}" _ _ "{#}"] by unfold_locales auto

lemma unclosed_after: "balanced p \<Longrightarrow> unclosed X s t \<Longrightarrow> wp p (\<lambda>_. unclosed X s) t"
  by (rule wpI) (auto dest!: obeysD dest: unclosed_trans)

lemma balanced_quiet:
  assumes "emits (\<lambda>x. \<not> is_talos x) p"
  shows "balanced p"
proof -
  have quiet: "uses x = None \<and> opened x = {#}" if "\<not> is_talos x" for x
    using that by (cases x) auto
  have "sessions Y new = Some Y" if "list_all (\<lambda>x. \<not> is_talos x) new" for new Y
    using that by (induction new) (auto simp: quiet)
  with assms show ?thesis by (fastforce simp: obeys_def emits_rel_def unclosed_def)
qed

section \<open>Every function of the reconciler\<close>

lemma balanced_resolveAddress: "balanced (resolveAddress E m)"
  by (intro balanced_quiet emits_resolveAddress address_read_quiet)

lemma balanced_Config: "balanced (Config E ns key)"
  by (intro balanced_quiet emits_Config secret_read_quiet)

text \<open>The wrappers that neither dial nor close.\<close>

lemma balanced_wrappers:
  "balanced theMachine" "balanced (event ty reason)" "balanced (now E)" "balanced (emit (OMetric k))"
  by (simp_all add: obeys_def event_def now_def)

lemma unclosed_probePeer:
  "wp (probePeer E r peer cfg) (\<lambda>res. unclosed (case res of None \<Rightarrow> {#} | Some (c, _) \<Rightarrow> {#c#}) s) s"
  unfolding probePeer_def wp_bind [of "resolveAddress E peer"]
  by (rule wp_mono [OF obeys_wp [OF balanced_resolveAddress]])
     (auto simp: go_wp talos_defs split: sum.split option.split)

lemma unclosed_probePeers:
  "unclosed {#} s s' \<Longrightarrow>
   wp (probePeers E r cfg peers) (\<lambda>res. unclosed (case res of Inl _ \<Rightarrow> {#} | Inr (c, _) \<Rightarrow> {#c#}) s) s'"
proof (induction peers arbitrary: s')
  case (Cons peer peers)
  show ?case
    unfolding probePeers.simps wp_bind
  proof (rule wp_mono [OF unclosed_probePeer], goal_cases)
    case (1 res t)
    then have "unclosed (case res of None \<Rightarrow> {#} | Some (c, _) \<Rightarrow> {#c#}) s t"
      using unclosed_trans [OF Cons.prems] by (simp split: option.splits prod.splits)
    then show ?case
      by (cases res) (auto simp: wp_return intro: Cons.IH)
  qed
qed (simp add: wp_return)

lemma unclosed_findHealthyPeer:
  "unclosed {#} s s' \<Longrightarrow>
   wp (findHealthyPeer E r cfg) (\<lambda>res. unclosed (case res of Inl _ \<Rightarrow> {#} | Inr (c, _) \<Rightarrow> {#c#}) s) s'"
  unfolding findHealthyPeer_def listControlPlaneMachines_def
  by (auto simp: go_wp Let_def split: sum.split intro!: unclosed_probePeers)

lemma balanced_leaveViaVictim: "balanced (leaveViaVictim E r cfg)"
proof (rule obeysI)
  fix s :: rstate
  show "wp (leaveViaVictim E r cfg) (\<lambda>_. balanced_rel s) s"
    unfolding leaveViaVictim_def wp_bind [of theMachine] wp_theMachine wp_bind [of "resolveAddress E _"]
    by (rule wp_mono [OF obeys_wp [OF balanced_resolveAddress]])
       (auto simp: go_wp talos_defs split: sum.split option.split)
qed

lemma balanced_tryEtcdRemoval: "balanced (tryEtcdRemoval E r)"
proof (rule obeysI)
  fix s :: rstate
  have act: "wp (leaveViaVictim E r cfg \<bind> (\<lambda>left.
        if left then Close c \<bind> (\<lambda>_. ret (Inr EtcdLeft))
        else EtcdRemoveMemberByID E c (EtcdCallTimeout r) (mem_id member) \<bind>
             (\<lambda>res. Close c \<bind> (\<lambda>_. case res of
                 Some e \<Rightarrow> ret (Inl (EWrap ''removing etcd member via peer'' (EExt e)))
               | None \<Rightarrow> ret (Inr EtcdRemoved)))))
      (\<lambda>_. balanced_rel s) t" if "unclosed {#c#} s t" for t cfg c member
    unfolding wp_bind [of "leaveViaVictim E r cfg"]
    by (rule wp_mono [OF unclosed_after [OF balanced_leaveViaVictim that]])
       (auto simp: go_wp realClient_defs split: option.split)
  have peer: "wp (findHealthyPeer E r cfg \<bind> (\<lambda>peer. case peer of
             Inl err \<Rightarrow> ret (Inl err)
           | Inr (peerClient, memberResp) \<Rightarrow>
               (case findMember (uni_fold E) memberResp cands of
                  None \<Rightarrow> Close peerClient \<bind> (\<lambda>_. ret (Inr EtcdNotMember))
                | Some member \<Rightarrow> leaveViaVictim E r cfg \<bind> (\<lambda>left.
                    if left then Close peerClient \<bind> (\<lambda>_. ret (Inr EtcdLeft))
                    else EtcdRemoveMemberByID E peerClient (EtcdCallTimeout r) (mem_id member) \<bind>
                         (\<lambda>res. Close peerClient \<bind> (\<lambda>_. case res of
                             Some e \<Rightarrow> ret (Inl (EWrap ''removing etcd member via peer'' (EExt e)))
                           | None \<Rightarrow> ret (Inr EtcdRemoved)))))))
      (\<lambda>_. balanced_rel s) t" if "balanced_rel s t" for t cfg cands
    unfolding wp_bind [of "findHealthyPeer E r cfg"]
  proof (rule wp_mono [OF unclosed_findHealthyPeer [OF that]], goal_cases)
    case (1 res u)
    have close: "wp (Close c \<bind> (\<lambda>_. ret (Inr EtcdNotMember))) (\<lambda>_. balanced_rel s) u" if "unclosed {#c#} s u" for c
      using that by (auto simp: go_wp Close_def)
    from 1 show ?case
      by (auto simp: wp_return split: sum.split option.split intro!: act close)
  qed
  show "wp (tryEtcdRemoval E r) (\<lambda>_. balanced_rel s) s"
    unfolding tryEtcdRemoval_def wp_bind [of theMachine] wp_theMachine wp_bind [of "Config _ _ _"]
    by (rule wp_mono [OF obeys_wp [OF balanced_Config]])
       (auto simp: wp_return wp_bind [of "event _ _"] event_def wp_emit split: sum.split intro!: peer,
        auto simp: wp_bind wp_emit wp_return)
qed

lemma balanced_tryReset: "balanced (tryReset E r)"
proof (rule obeysI)
  fix s :: rstate
  show "wp (tryReset E r) (\<lambda>_. balanced_rel s) s"
    unfolding tryReset_def wp_bind [of theMachine] wp_theMachine wp_bind [of "resolveAddress E _"]
    by (rule wp_mono [OF obeys_wp [OF balanced_resolveAddress]])
       (auto simp: go_wp talos_defs now_def event_def split: sum.split option.split
         intro!: wp_mono [OF balanced.eff_wp [OF balanced_Config]])
qed

lemmas balanced_ops = quiet_ops [THEN balanced_quiet]
  balanced_wrappers balanced_tryEtcdRemoval balanced_tryReset

lemma balanced_Reconcile: "balanced (Reconcile E r req)"
proof -
  have etcd: "balanced (etcdPhase E r at del)" for at del
    unfolding etcdPhase_def ensureEtcdRemoved_def
    by (intro balanced.eff_rules balanced_ops)
  have reset: "balanced (resetPhase E r at)" for at
    unfolding resetPhase_def by (intro balanced.eff_rules balanced_ops)
  have set: "balanced (setMachine m)" and get: "balanced (call (OGetMachine req) f)" for m f
    by (simp_all add: obeys_def)
  show ?thesis
    unfolding Reconcile_def reconcileDeleting_def runPhases_def
    by (intro balanced.eff_rules balanced_ops etcd reset set get)
qed

lemma reconcile_balanced: "sessions {#} (reconcile_trace E r req h) = Some {#}"
  using balanced_Reconcile [of E r req] hist_reconcile [of E r req h]
  by (auto simp: obeys_def unclosed_def dest!: spec [of _ "start h"])

end
