(* ===== verification/Reconciler_Serial.thy ===== *)
theory Reconciler_Serial
  imports Reconciler_Model "HOL-Library.Multiset"
begin

text \<open>
  Orders the reconciler relies on: which deleting control-plane Machine may go first, and in which
  order peers are asked.
\<close>

section \<open>Control-plane serialization\<close>

text \<open>A Machine in the queue for the etcd phase.\<close>

definition queued :: "Machine \<Rightarrow> bool" where
  "queued m = (m_deletionTimestamp m \<noteq> None \<and> HasHook m)"

definition turn_key :: "Machine \<Rightarrow> time \<times> string" where
  "turn_key m = (the (m_deletionTimestamp m), m_name m)"

text \<open>The loop as a predicate: some other queued Machine comes earlier.\<close>

lemma serialHold_iff:
  assumes "m_deletionTimestamp m \<noteq> None"
  shows "serialHold items m =
     Inr (\<exists>p \<in> set items. m_name p \<noteq> m_name m \<and> queued p \<and> turn_key p < turn_key m)"
proof (induction items)
  case (Cons p items)
  have "serialHold (p # items) m =
      (if m_name p \<noteq> m_name m \<and> queued p \<and> turn_key p < turn_key m then Inr True else serialHold items m)"
    using assms by (auto simp: queued_def turn_key_def less_le split: option.split)
  with Cons.IH show ?case by (simp del: serialHold.simps) blast
qed simp

text \<open>It never dereferences a missing timestamp when the Machine is being deleted.\<close>

lemma serialHold_total: "m_deletionTimestamp m \<noteq> None \<Longrightarrow> \<exists>b. serialHold items m = Inr b"
  by (simp add: serialHold_iff)

lemma serial_exclusive:
  assumes "m \<in> set items" and "m' \<in> set items" and "queued m" and "queued m'"
    and "serialHold items m = Inr False" and "serialHold items m' = Inr False"
  shows "m_name m = m_name m'"
proof (rule ccontr)
  assume "m_name m \<noteq> m_name m'"
  then have "turn_key m < turn_key m' \<or> turn_key m' < turn_key m"
    by (auto simp: turn_key_def neq_iff)
  with assms \<open>m_name m \<noteq> m_name m'\<close> show False
    by (auto simp: serialHold_iff queued_def)
qed

lemma serial_someone:
  assumes "m \<in> set items" and "queued m"
  shows "\<exists>m' \<in> set items. queued m' \<and> serialHold items m' = Inr False"
proof -
  define m' where "m' = arg_min_list turn_key (filter queued items)"
  have ne: "filter queued items \<noteq> []"
    using assms by (auto simp: filter_empty_conv)
  have m': "m' \<in> set items" "queued m'"
    using arg_min_list_in [OF ne, of turn_key] by (simp_all add: m'_def)
  have "turn_key m' \<le> turn_key p" if "p \<in> set items" "queued p" for p
    using f_arg_min_list_f [OF ne, of turn_key] that by (auto simp: m'_def)
  then have "\<not> (\<exists>p \<in> set items. m_name p \<noteq> m_name m' \<and> queued p \<and> turn_key p < turn_key m')"
    by (meson leD)
  moreover have "m_deletionTimestamp m' \<noteq> None"
    using m'(2) by (simp add: queued_def)
  ultimately have "serialHold items m' = Inr False"
    by (simp add: serialHold_iff)
  with m' show ?thesis by blast
qed

section \<open>The order of the peers\<close>

lemma age_key_neq: "m_name m \<noteq> m_name m' \<Longrightarrow> age_key m \<noteq> age_key m'"
  by (simp add: age_key_def)

lemma sortByAge_sorted: "sorted (map age_key (sortByAge ms))"
  by (simp add: sortByAge_def)

lemma sortByAge_mset: "mset (sortByAge ms) = mset ms"
  by (simp add: sortByAge_def)

text \<open>
  \<open>sort.Slice\<close> is not stable; with distinct names the keys are distinct and every
  sorting algorithm gives the same list.
\<close>

lemma sortByAge_unique:
  assumes "distinct (map m_name ms)" and "mset ms' = mset ms" and "sorted (map age_key ms')"
  shows "ms' = sortByAge ms"
proof -
  have "inj_on age_key (set ms)"
    using assms(1) by (auto simp: inj_on_def age_key_def distinct_map)
  then show ?thesis
    unfolding sortByAge_def using assms(2,3)
    by (metis properties_for_sort_key mset_eq_setD sort_key_inj_key_eq)
qed

lemma mset_orderPeers: "mset (orderPeers items victim) = mset (filter (peerCandidate victim) items)"
proof -
  have "mset (orderPeers items victim) =
      filter_mset (\<lambda>m. m_nodeRefName m \<noteq> '''') (mset (filter (peerCandidate victim) items)) +
      filter_mset (\<lambda>m. \<not> m_nodeRefName m \<noteq> '''') (mset (filter (peerCandidate victim) items))"
    by (simp add: orderPeers_def sortByAge_def Let_def filter_filter_mset)
  then show ?thesis by (simp only: multiset_partition [symmetric])
qed

text \<open>The order of the peers, apart from how they are sorted: those with a node reference first, and the oldest of each group first.\<close>

definition older :: "Machine \<Rightarrow> Machine \<Rightarrow> bool" where
  "older a b = (m_creationTimestamp a < m_creationTimestamp b \<or>
     m_creationTimestamp a = m_creationTimestamp b \<and> m_name a \<le> m_name b)"

definition asked_before :: "Machine \<Rightarrow> Machine \<Rightarrow> bool" where
  "asked_before a b =
     (if m_nodeRefName a \<noteq> '''' then m_nodeRefName b = '''' \<or> older a b else m_nodeRefName b = '''' \<and> older a b)"

lemma older_sorted: "sorted_wrt older (sortByAge ms)"
proof -
  have "sorted_wrt (\<lambda>x y. age_key x \<le> age_key y) (sortByAge ms)"
    using sortByAge_sorted [of ms] by (simp add: sorted_map)
  then show ?thesis
    by (rule sorted_wrt_mono_rel [rotated]) (auto simp: age_key_def older_def)
qed

lemma asked_before_sorted: "sorted_wrt asked_before (orderPeers items victim)"
proof -
  have group: "sorted_wrt asked_before (sortByAge ms)"
    if "\<And>a b. a \<in> set ms \<Longrightarrow> b \<in> set ms \<Longrightarrow> older a b \<Longrightarrow> asked_before a b" for ms
    by (rule sorted_wrt_mono_rel [OF _ older_sorted]) (use that in \<open>simp add: sortByAge_def\<close>)
  show ?thesis
    unfolding orderPeers_def Let_def sorted_wrt_append
    by (intro conjI group) (auto simp: asked_before_def sortByAge_def)
qed

end
