(* ===== verification/Reconciler_Progress.thy ===== *)
theory Reconciler_Progress
  imports Reconciler_Etcd Reconciler_Serial
begin

text \<open>
  Progress and errors: the controller fails open once its deadlines have passed, it never
  dereferences a missing deletion timestamp, and its transient errors end no phase.
\<close>

section \<open>Fail open\<close>

text \<open>The API server takes every write of the controller.\<close>

definition accepts_patches :: "env \<Rightarrow> bool" where
  "accepts_patches E = (\<forall>h m m'. new_helper E h m = None \<and> patch_machine E h m m' = None)"

lemma accepted_patch:
  assumes "accepts_patches E"
  shows "wp (patchAnnotations E f)
     (\<lambda>res t. res = Inr () \<and> machine t = (machine s)\<lparr>m_annotations :=
        (case f (m_annotations (machine s)) of None \<Rightarrow> m_annotations (machine s) | Some a \<Rightarrow> a)\<rparr>) s"
  using assms by (auto simp: patchAnnotations_def accepts_patches_def go_wp Let_def split: option.split)

lemma accepted_stamp:
  "accepts_patches E \<Longrightarrow>
   wp (stampPhase E k v) (\<lambda>res t. res = Inr () \<and> same_but_annotations (machine s) (machine t)) s"
  unfolding stampPhase_def by (rule wp_mono [OF accepted_patch]) auto

lemma accepted_concludeEtcd:
  assumes "accepts_patches E"
  shows "wp (concludeEtcd E v) (\<lambda>res t. res = Inr ZeroResult \<and> same_but_annotations (machine s) (machine t)) s"
  unfolding concludeEtcd_def
  by (auto simp: go_wp recordEtcdOutcome_def event_def intro!: wp_mono [OF accepted_stamp [OF assms]])

lemma accepted_concludeReset:
  assumes "accepts_patches E"
  shows "wp (concludeReset E v) (\<lambda>res t. res = Inr () \<and> same_but_annotations (machine s) (machine t)) s"
  unfolding concludeReset_def
  by (auto simp: go_wp event_def intro!: wp_mono [OF accepted_stamp [OF assms]])

lemma accepted_release:
  assumes "accepts_patches E"
  shows "wp (release E) (\<lambda>res t. res = Inr () \<and> \<not> HasHook (machine t)) s"
  unfolding release_def
  by (auto simp: go_wp event_def intro!: wp_mono [OF accepted_patch [OF assms]])

text \<open>The clock has passed both deadlines of a teardown first observed at \<open>t0\<close>.\<close>

definition deadlines_passed :: "env \<Rightarrow> Reconciler \<Rightarrow> time \<Rightarrow> bool" where
  "deadlines_passed E r t0 =
     (\<forall>h. t0 + EtcdTimeout r < now_at E h \<and> t0 + ResetTimeout r < now_at E h)"

text \<open>The Cluster can be read (or is gone), and no older deletion holds the Machine back.\<close>

definition unblocked :: "env \<Rightarrow> Machine \<Rightarrow> bool" where
  "unblocked E m =
     (\<forall>h. (case get_cluster E h (clusterKeyFor m) of Inl e \<Rightarrow> IsNotFound e | Inr _ \<Rightarrow> True) \<and>
          (\<exists>items. list_machines E h (m_namespace m) [(CapiClusterNameLabel, Name (clusterKeyFor m))]
                     [MachineControlPlaneLabel] = Inr items \<and> serialHold items m = Inr False))"

lemma serialHold_same: "same_but_annotations m v \<Longrightarrow> serialHold items v = serialHold items m"
  by (auto simp: same_but_annotations_def elim!: ssubst)
     (induction items; simp split: option.split)

lemma open_serialize:
  assumes "unblocked E m" and "same_but_annotations m (machine s)"
  shows "wp (serializeControlPlane E) (\<lambda>res t. res = Inr ZeroResult \<and> machine t = machine s) s"
proof -
  obtain items where "list_machines E (hist s) (m_namespace m)
      [(CapiClusterNameLabel, Name (clusterKeyFor m))] [MachineControlPlaneLabel] = Inr items"
    and "serialHold items m = Inr False"
    using assms(1) unfolding unblocked_def by blast
  then show ?thesis
    by (simp add: serializeControlPlane_def listControlPlaneMachines_def go_wp Let_def
        same_but_annotations_facts [OF assms(2)] serialHold_same [OF assms(2)])
qed

lemma open_ensureEtcdRemoved:
  assumes "accepts_patches E" and "deadlines_passed E r t0"
  shows "wp (ensureEtcdRemoved E r t0) (\<lambda>res t. res = Inr ZeroResult \<and> same_but_annotations (machine s) (machine t)) s"
  unfolding ensureEtcdRemoved_def Let_def wp_bind [of "tryEtcdRemoval E r"]
  by (rule wp_mono [OF obeys_wp [OF keep_tryEtcdRemoval]])
     (use assms(2) in \<open>auto simp: go_wp now_def event_def keep_rel_def deadlines_passed_def split: sum.split
        intro!: wp_mono [OF accepted_concludeEtcd [OF assms(1)]]\<close>)

lemma open_resetPhase:
  assumes "accepts_patches E" and "deadlines_passed E r t0"
  shows "wp (resetPhase E r t0) (\<lambda>res t. res = Inr () \<and> same_but_annotations (machine s) (machine t)) s"
  unfolding resetPhase_def
  by (auto simp: go_wp Let_def intro!: wp_mono [OF obeys_wp [OF keep_tryReset]])
     (use assms(2) in \<open>auto simp: go_wp now_def event_def keep_rel_def deadlines_passed_def split: sum.split
        intro!: wp_mono [OF accepted_concludeReset [OF assms(1)]]\<close>)

lemma open_etcdPhase:
  assumes "accepts_patches E" and "deadlines_passed E r t0" and "unblocked E m"
    and "same_but_annotations m (machine s)"
  shows "wp (etcdPhase E r t0 del) (\<lambda>res t. res = Inr ZeroResult \<and> same_but_annotations (machine s) (machine t)) s"
  unfolding etcdPhase_def
  by (auto simp: go_wp event_def IsZero_def ZeroResult_def
      intro!: wp_mono [OF accepted_stamp [OF assms(1)]] wp_mono [OF open_serialize [OF assms(3,4)]]
        wp_mono [OF open_ensureEtcdRemoved [OF assms(1,2)]])

lemma open_runPhases:
  assumes "accepts_patches E" and "deadlines_passed E r t0" and "unblocked E (machine s)"
    and "recordedObservedAt E (machine s) = Some t0"
  shows "wp (runPhases E r) (\<lambda>res t. res = Inr ZeroResult \<and> \<not> HasHook (machine t)) s"
proof -
  have cluster: "wp (clusterDeleting E) (\<lambda>res t. \<not> isl res \<and> machine t = machine s) s"
    using assms(3) by (auto simp: clusterDeleting_def go_wp unblocked_def split: sum.splits dest!: spec [of _ "hist s"])
  have rest: "wp (etcdPhase E r t0 del \<bind> (\<lambda>etcd. case etcd of Inl err \<Rightarrow> ret (Inl err)
            | Inr result \<Rightarrow> if \<not> IsZero result then ret (Inr result)
                else resetPhase E r t0 \<bind> (\<lambda>res. case res of Inl err \<Rightarrow> ret (Inl err)
                  | Inr _ \<Rightarrow> release E \<bind> (\<lambda>rel. case rel of Inl err \<Rightarrow> ret (Inl err)
                      | Inr _ \<Rightarrow> ret (Inr ZeroResult)))))
          (\<lambda>res t. res = Inr ZeroResult \<and> \<not> HasHook (machine t)) t" if "machine t = machine s" for t del
    unfolding wp_bind
    by (rule wp_mono [OF open_etcdPhase [OF assms(1,2,3)]])
       (use that in \<open>auto simp: wp_return wp_bind IsZero_def ZeroResult_def
          intro!: wp_mono [OF open_resetPhase [OF assms(1,2)]] wp_mono [OF accepted_release [OF assms(1)]]\<close>)
  from assms(4) show ?thesis
    unfolding runPhases_def ensureObservedAt_def
    by (auto simp: wp_bind [of theMachine] wp_bind [of "ret _"] wp_bind [of "theMachine \<bind> _"] wp_theMachine wp_return
        wp_bind [of "clusterDeleting E"] split: sum.split
        intro!: wp_mono [OF cluster] rest)
qed

section \<open>The hook is taken off on the API server\<close>

text \<open>When the Machine in memory loses its hook, a patch that takes the hook off has been accepted.\<close>

definition unhook_rel :: "rstate \<Rightarrow> rstate \<Rightarrow> bool" where
  "unhook_rel s t =
     (same_but_annotations (machine s) (machine t) \<and>
      (\<exists>new. hist t = hist s @ new \<and>
         (HasHook (machine s) \<and> \<not> HasHook (machine t) \<longrightarrow>
            (\<exists>before after. OPatch before after None \<in> set new \<and> HasHook before \<and> \<not> HasHook after \<and>
               same_but_annotations (machine s) after))))"

interpretation unhook: effect unhook_rel
proof
  show "unhook_rel s s" for s
    by (simp add: unhook_rel_def)
  show "unhook_rel s u" if st: "unhook_rel s t" and tu: "unhook_rel t u" for s t u
  proof -
    from st obtain new1 where same1: "same_but_annotations (machine s) (machine t)" and new1: "hist t = hist s @ new1"
      and off1: "HasHook (machine s) \<Longrightarrow> \<not> HasHook (machine t) \<Longrightarrow>
        \<exists>b a. OPatch b a None \<in> set new1 \<and> HasHook b \<and> \<not> HasHook a \<and> same_but_annotations (machine s) a"
      by (auto simp: unhook_rel_def)
    from tu obtain new2 where same2: "same_but_annotations (machine t) (machine u)" and new2: "hist u = hist t @ new2"
      and off2: "HasHook (machine t) \<Longrightarrow> \<not> HasHook (machine u) \<Longrightarrow>
        \<exists>b a. OPatch b a None \<in> set new2 \<and> HasHook b \<and> \<not> HasHook a \<and> same_but_annotations (machine t) a"
      by (auto simp: unhook_rel_def)
    have "\<exists>b a. OPatch b a None \<in> set (new1 @ new2) \<and> HasHook b \<and> \<not> HasHook a \<and> same_but_annotations (machine s) a"
      if "HasHook (machine s)" "\<not> HasHook (machine u)"
      using that off1 off2 same_but_annotations_trans [OF same1] by (cases "HasHook (machine t)") fastforce+
    then show ?thesis
      using new1 new2 same_but_annotations_trans [OF same1 same2] by (auto simp: unhook_rel_def)
  qed
qed

lemma unhook_keep: "keeps_machine m \<Longrightarrow> grows m \<Longrightarrow> obeys unhook_rel m"
  by (auto simp: obeys_def keep_rel_def emits_rel_def unhook_rel_def)

lemma unhook_patch: "accepts_patches E \<Longrightarrow> obeys unhook_rel (patchAnnotations E f)"
  by (rule obeysI)
     (auto simp: patchAnnotations_def go_wp Let_def unhook_rel_def accepts_patches_def split: option.split)

lemma unhook_reconcileDeleting:
  assumes "accepts_patches E"
  shows "obeys unhook_rel (reconcileDeleting E r)"
proof -
  note quiet = no_patch_ops [THEN emits_grows]
  have tm: "grows theMachine" by (rule emits_grows [OF emits_theMachine])
  note ops = unhook.eff_rules unhook_patch [OF assms] unhook_keep [OF keep_theMachine tm]
    unhook_keep [OF keep_event quiet(1)] unhook_keep [OF keep_now quiet(2)]
    unhook_keep [OF keep_recordEtcdOutcome quiet(3)] unhook_keep [OF keep_emit quiet(4)]
    unhook_keep [OF keep_clusterDeleting quiet(5)] unhook_keep [OF keep_serializeControlPlane quiet(7)]
    unhook_keep [OF keep_ensureCredentials quiet(8)] unhook_keep [OF keep_tryEtcdRemoval quiet(9)]
    unhook_keep [OF keep_tryReset quiet(10)]
  have "obeys unhook_rel (lateStamp E r)"
    unfolding lateStamp_def ensureHook_def by (intro ops)
  moreover have "obeys unhook_rel (runPhases E r)"
    unfolding runPhases_def ensureObservedAt_def etcdPhase_def ensureEtcdRemoved_def concludeEtcd_def
      resetPhase_def concludeReset_def stampPhase_def release_def
    by (intro ops)
  ultimately show ?thesis
    unfolding reconcileDeleting_def by (intro ops)
qed

text \<open>Fail open, as the API server sees it.\<close>

lemma open_Reconcile:
  assumes "get_machine E h req = Inr m" and "HasHook m" and "m_deletionTimestamp m \<noteq> None"
    and "AtPreTerminate m" and "\<not> HasOtherPreTerminateHooks m"
    and "accepts_patches E" and "recordedObservedAt E m = Some t0" and "deadlines_passed E r t0"
    and "unblocked E m"
  shows "wp (Reconcile E r req) (\<lambda>res t. res = Inr ZeroResult \<and>
     (\<forall>new. hist t = h @ new \<longrightarrow> (\<exists>before after. OPatch before after None \<in> set new \<and> HasHook before \<and>
        \<not> HasHook after \<and> ObjectKeyFromObject after = ObjectKeyFromObject m))) (start h)"
proof (rule wp_ReconcileI)
  fix m' assume m': "get_machine E (hist (start h)) req = Inr m'" "m_deletionTimestamp m' \<noteq> None"
  with assms(1) have m: "m' = m" by simp
  have "wp (reconcileDeleting E r) (\<lambda>res t. res = Inr ZeroResult \<and> \<not> HasHook (machine t)) (fetched (start h) req m)"
    using assms by (auto simp: reconcileDeleting_def lateStamp_def wp_bind [of "theMachine \<bind> _"]
        wp_bind [of theMachine] wp_bind [of "ret _"] wp_theMachine wp_return intro!: open_runPhases)
  from wp_conj [OF this obeys_wp [OF unhook_reconcileDeleting [OF assms(6)]]]
  show "wp (reconcileDeleting E r) (\<lambda>res t. res = Inr ZeroResult \<and>
     (\<forall>new. hist t = h @ new \<longrightarrow> (\<exists>before after. OPatch before after None \<in> set new \<and> HasHook before \<and>
        \<not> HasHook after \<and> ObjectKeyFromObject after = ObjectKeyFromObject m))) (fetched (start h) req m')"
    unfolding m
    by (rule wp_mono) (use assms(2) in \<open>auto simp: unhook_rel_def dest!: same_but_annotations_facts(2), blast\<close>)
qed (use assms in auto)

text \<open>The serialization has no deadline.\<close>

lemma serialHold_waits:
  assumes "m_deletionTimestamp m = Some d" and "peer \<in> set items" and "m_name peer \<noteq> m_name m" and "HasHook peer"
    and "m_deletionTimestamp peer = Some p" and "p < d \<or> p = d \<and> m_name peer < m_name m"
  shows "serialHold items m = Inr True"
  using assms(2)
proof (induction items)
  case (Cons x items)
  then show ?case using assms by (cases "m_deletionTimestamp x") auto
qed simp

section \<open>No nil dereference\<close>

lemma same_patchAnnotations: "obeys same_rel (patchAnnotations E f)"
  by (rule obeysI) (auto simp: patchAnnotations_def go_wp Let_def same_rel_def split: option.split)

lemma same_keep: "keeps_machine m \<Longrightarrow> obeys same_rel m"
  by (simp add: obeys_def keep_rel_def same_rel_def)

lemmas same_rules = same.eff_rules same_patchAnnotations same_keep [OF keep_theMachine] same_keep [OF keep_now]
  same_keep [OF keep_event] same_keep [OF keep_ensureCredentials] same_keep [OF keep_clusterDeleting]

lemma same_ensureObservedAt: "obeys same_rel (ensureObservedAt E)"
  unfolding ensureObservedAt_def by (intro same_rules)

lemma same_lateStamp: "obeys same_rel (lateStamp E r)"
  unfolding lateStamp_def ensureHook_def by (intro same_rules)

text \<open>The patch library itself returns errors.\<close>

definition helper_sane :: "env \<Rightarrow> bool" where
  "helper_sane E = (\<forall>h m e. new_helper E h m = Some e \<longrightarrow> err_root e \<noteq> NilDeref)"

lemma np_patchAnnotations: "helper_sane E \<Longrightarrow> yields no_panic (patchAnnotations E f)"
proof -
  assume "helper_sane E"
  then have "wp (patchAnnotations E f) (\<lambda>res _. no_panic res) s" for s
    by (auto simp: patchAnnotations_def go_wp Let_def helper_sane_def split: option.split)
  then show ?thesis by (simp add: yields_def wp_def case_prod_beta)
qed

lemma np_decodeConfig [simp]: "no_panic (decodeConfig E secret)"
  by (simp add: decodeConfig_def Let_def split: option.split)

lemma np_Ensure: "yields no_panic (Ensure E ns key)"
  unfolding Ensure_def Let_def by (intro yields_rules) simp_all

lemma np_Config: "yields no_panic (Config E ns key)"
  unfolding Config_def by (intro yields_rules) simp_all

lemma np_resolveAddress: "yields no_panic (resolveAddress E m)"
  unfolding resolveAddress_def hardwareAddress_def Let_def by (intro yields_rules) simp_all

lemma np_listControlPlaneMachines: "yields no_panic (listControlPlaneMachines E m)"
  unfolding listControlPlaneMachines_def Let_def by (intro yields_rules) simp_all

lemma np_probePeers: "yields no_panic (probePeers E r cfg peers)"
  by (induction peers) (simp_all, (intro yields_rules; simp)+)

text \<open>An error passed on is no panic when its source returns none.\<close>

lemmas np_then = yields_then [where P = no_panic]

lemma np_findHealthyPeer: "yields no_panic (findHealthyPeer E r cfg)"
  unfolding findHealthyPeer_def
  by (rule yields_bind, rule np_then [OF np_listControlPlaneMachines])
     (auto split: sum.split intro: yields_return np_probePeers)

lemma np_tryEtcdRemoval: "yields no_panic (tryEtcdRemoval E r)"
proof -
  have peer: "yields no_panic (findHealthyPeer E r cfg \<bind> (\<lambda>peer. case peer of Inl err \<Rightarrow> ret (Inl err)
      | Inr (c, resp) \<Rightarrow> f c resp))" if "\<And>c resp. yields no_panic (f c resp)" for cfg and f :: "_ \<Rightarrow> _ \<Rightarrow> (go_error + string) rprog"
    by (rule np_then [OF np_findHealthyPeer]) (auto split: sum.split intro: yields_return that)
  show ?thesis
    unfolding tryEtcdRemoval_def
    by (rule yields_bind, rule np_then [OF np_Config], rule yields_case_sum)
       (simp_all add: yields_bind yields_return, rule peer, (intro yields_rules; simp)+)
qed

lemma np_tryReset: "yields no_panic (tryReset E r)"
proof -
  have config: "yields no_panic (Config E ns key \<bind> (\<lambda>config. case config of
        Inl err \<Rightarrow> event EventTypeWarning EventCredentialsMissing \<bind> (\<lambda>_. ret (Inl (EWrap ''loading talosconfig'' err)))
      | Inr cfg \<Rightarrow> f cfg))" if "\<And>cfg. yields no_panic (f cfg)" for ns key and f :: "_ \<Rightarrow> (go_error + string) rprog"
    by (rule np_then [OF np_Config]) (auto split: sum.split intro!: yields_rules that)
  show ?thesis
    unfolding tryReset_def
    by (rule yields_bind, rule np_then [OF np_resolveAddress], rule yields_case_sum)
       (simp_all add: yields_return, rule impI, rule config, (intro yields_rules; simp)+)
qed

lemma np_conclude:
  assumes "helper_sane E"
  shows "yields no_panic (concludeEtcd E v)" "yields no_panic (concludeReset E v)" "yields no_panic (release E)"
    "yields no_panic (ensureHook E)" "yields no_panic (ensureObservedAt E)"
  unfolding concludeEtcd_def concludeReset_def release_def ensureHook_def ensureObservedAt_def stampPhase_def
  by (auto intro!: yields_rules np_then [OF np_patchAnnotations [OF assms]] split: sum.split option.split
      simp: Let_def yields_return)

lemma np_ensureCredentials: "yields no_panic (ensureCredentials E r)"
  unfolding ensureCredentials_def
  by (rule yields_bind, rule np_then [OF np_Ensure]) (auto split: sum.split intro!: yields_rules)

lemma np_ensureEtcdRemoved: "helper_sane E \<Longrightarrow> yields no_panic (ensureEtcdRemoved E r at)"
  unfolding ensureEtcdRemoved_def Let_def
  by (rule np_then [OF np_tryEtcdRemoval]) (auto split: sum.split intro!: yields_rules np_conclude)

lemma np_resetPhase: "helper_sane E \<Longrightarrow> yields no_panic (resetPhase E r at)"
  unfolding resetPhase_def Let_def
  by (rule yields_bind) (auto split: sum.split intro!: yields_rules np_conclude np_then [OF np_tryReset])

lemma np_serialize:
  "m_deletionTimestamp (machine s) \<noteq> None \<Longrightarrow> wp (serializeControlPlane E) (\<lambda>res _. no_panic res) s"
  using serialHold_total [of "machine s"]
  by (auto simp: serializeControlPlane_def listControlPlaneMachines_def go_wp Let_def split: sum.split bool.split)
     (metis Inl_Inr_False)

lemma np_etcdPhase:
  assumes "helper_sane E" and "m_deletionTimestamp (machine s) \<noteq> None"
  shows "wp (etcdPhase E r at del) (\<lambda>res _. no_panic res) s"
proof -
  have stamp: "wp (stampPhase E k v) (\<lambda>res _. no_panic res) s" for k v
    unfolding stampPhase_def by (rule yields_wp [OF np_patchAnnotations [OF assms(1)]])
  show ?thesis
    unfolding etcdPhase_def
    by (auto simp: go_wp event_def split: sum.split
        intro!: wp_mono [OF stamp] wp_mono [OF np_serialize [OF assms(2)]]
          yields_wp [OF np_ensureEtcdRemoved [OF assms(1)]])
qed

lemma np_runPhases:
  assumes "helper_sane E" and "m_deletionTimestamp (machine s) \<noteq> None"
  shows "wp (runPhases E r) (\<lambda>res _. no_panic res) s"
proof -
  have observed: "wp (ensureObservedAt E) (\<lambda>res t. no_panic res \<and> m_deletionTimestamp (machine t) \<noteq> None) s"
    by (intro wp_conj yields_wp np_conclude assms(1) wp_mono [OF obeys_wp [OF same_ensureObservedAt]])
       (use assms(2) in \<open>simp add: same_rel_def same_but_annotations_facts\<close>)
  have cluster: "wp (clusterDeleting E) (\<lambda>res t. no_panic res \<and> m_deletionTimestamp (machine t) \<noteq> None) t"
    if "m_deletionTimestamp (machine t) \<noteq> None" for t
    using that by (auto simp: clusterDeleting_def go_wp split: sum.split)
  have tail: "yields no_panic (fromReset E r at)" for at
    by (rule np_then [OF np_resetPhase [OF assms(1)]])
       (auto split: sum.split intro!: yields_return np_then [OF np_conclude(3) [OF assms(1)]])
  show ?thesis
    unfolding runPhases_def wp_bind [of "ensureObservedAt E"]
    by (rule wp_mono [OF observed])
       (auto simp: wp_return wp_bind [of "clusterDeleting E"] wp_bind [of "etcdPhase _ _ _ _"] split: sum.split
        intro!: wp_mono [OF cluster] wp_mono [OF np_etcdPhase [OF assms(1)]] yields_wp [OF tail])
qed

lemma np_Reconcile:
  assumes "helper_sane E"
  shows "wp (Reconcile E r req) (\<lambda>res _. no_panic res) s"
proof (rule wp_ReconcileI, goal_cases)
  case (3 m)
  have "yields no_panic (reconcileNormal E r)"
    unfolding reconcileNormal_def
    by (rule np_then [OF np_conclude(4) [OF assms]]) (auto split: sum.split intro: yields_return np_ensureCredentials)
  then show ?case by (auto intro!: wp_mono [OF yields_wp] split: sum.splits)
next
  case (4 m)
  have "yields no_panic (lateStamp E r)"
    unfolding lateStamp_def
    by (intro yields_bind [of _ _ theMachine] yields_if yields_return np_then [OF np_conclude(4) [OF assms]])
       (auto split: sum.split intro!: yields_return np_then [OF np_ensureCredentials])
  then have "wp (lateStamp E r) (\<lambda>res t. no_panic res \<and> m_deletionTimestamp (machine t) \<noteq> None) (fetched s req m)"
    by (intro wp_conj yields_wp wp_mono [OF obeys_wp [OF same_lateStamp]])
       (use 4 in \<open>simp_all add: same_rel_def same_but_annotations_facts\<close>)
  then show ?case
    unfolding reconcileDeleting_def wp_bind [of "lateStamp E r"]
    by (rule wp_mono)
       (auto simp: wp_return wp_bind [of theMachine] wp_theMachine split: sum.split bool.split
        intro!: np_runPhases [OF assms])
qed simp_all

section \<open>The recorded start of the wait\<close>

text \<open>
  The returned time is the recorded one, or is recorded by the same call so that the next
  reconcile reads the same time back: a restart does not reset the clock.
\<close>

lemma observedAt_recorded:
  assumes "\<And>h. in_calendar (now_at E h)"
  shows "wp (ensureObservedAt E)
     (\<lambda>res t. \<forall>at. res = Inr at \<longrightarrow> recordedObservedAt E (machine t) = Some at) s"
proof (cases "recordedObservedAt E (machine s)")
  case (Some at)
  then show ?thesis by (simp add: ensureObservedAt_def go_wp)
next
  case None
  have "time_Parse (lenient E) (time_Format (time_Truncate (now_at E h))) = Some (time_Truncate (now_at E h))" for h
    using assms [of h] by (simp add: time_Parse_Format in_calendar_Truncate time_Truncate_idem)
  with None show ?thesis
    by (auto simp: ensureObservedAt_def go_wp now_def Let_def patchAnnotations_def recordedObservedAt_def
        split: option.split)
qed

section \<open>Errors of an attempt\<close>

text \<open>
  A failed attempt ends its phase only after the deadline; before it the error is returned
  as transient and nothing is written.
\<close>

lemma failed_attempt:
  assumes "run_state (tryEtcdRemoval E r) s = (Inl err, t)"
  shows "now_at E (hist t) \<le> at + EtcdTimeout r \<Longrightarrow>
      run_state (ensureEtcdRemoved E r at) s = (Inl (ETransient err), t\<lparr>hist := hist t @ [ONow (now_at E (hist t))]\<rparr>)"
  using assms by (simp add: ensureEtcdRemoved_def now_def)

end
