(* ===== verification/Setup.thy ===== *)
theory Setup
  imports Reconciler_Guards
begin

text \<open>
  \<open>setup.go\<close>: which events reach the reconciler, as the predicates and map functions of
  \<open>SetupWithManager\<close>. The watch machinery itself belongs to controller-runtime.
\<close>

section \<open>Definitions\<close>

record owner_reference =
  or_kind :: string
  or_name :: string

text \<open>What the handlers see of a \<open>client.Object\<close>.\<close>

record client_object =
  co_name :: string
  co_namespace :: string
  co_deletionTimestamp :: "time option"
  co_ownerReferences :: "owner_reference list"

text \<open>An object of the Machine watch: the type assertion may fail.\<close>

datatype watched = WMachine Machine | WOther client_object

text \<open>Events of a watch; an object may be nil.\<close>

datatype watch_event =
    CreateEvent "client_object option"
  | UpdateEvent "client_object option" "client_object option"
  | DeleteEvent "client_object option"
  | GenericEvent "client_object option"

definition serviced :: "Machine \<Rightarrow> bool" where
  "serviced m = (Qualifies m \<or> HasHook m)"

definition machinePredicate :: "watched \<Rightarrow> bool" where
  "machinePredicate obj = (case obj of WMachine m \<Rightarrow> Qualifies m \<or> HasHook m | WOther _ \<Rightarrow> False)"

definition deleting :: "client_object option \<Rightarrow> bool" where
  "deleting obj = (case obj of None \<Rightarrow> False | Some x \<Rightarrow> co_deletionTimestamp x \<noteq> None)"

fun clusterDeletionPredicate :: "watch_event \<Rightarrow> bool" where
  "clusterDeletionPredicate (CreateEvent obj) = deleting obj"
| "clusterDeletionPredicate (UpdateEvent _ new) = deleting new"
| "clusterDeletionPredicate (DeleteEvent _) = True"
| "clusterDeletionPredicate (GenericEvent obj) = deleting obj"

definition clusterToMachines :: "env \<Rightarrow> client_object \<Rightarrow> (obs, 'z, ObjectKey list) prog" where
  "clusterToMachines E obj =
     (let labels = [(CapiClusterNameLabel, co_name obj)]
      in do {
        res \<leftarrow> call (OListMachines (co_namespace obj) labels [])
                 (\<lambda>h. list_machines E h (co_namespace obj) labels []);
        (case res of
           Inl _ \<Rightarrow> ret []
         | Inr items \<Rightarrow> ret (map ObjectKeyFromObject (filter (\<lambda>m. Qualifies m \<or> HasHook m) items)))
      })"

fun ownerMachine :: "string \<Rightarrow> owner_reference list \<Rightarrow> ObjectKey list" where
  "ownerMachine ns [] = []"
| "ownerMachine ns (ref # refs) =
     (if or_kind ref = ''Machine'' then [\<lparr>Namespace = ns, Name = or_name ref\<rparr>] else ownerMachine ns refs)"

definition infraMachineToMachine :: "client_object \<Rightarrow> ObjectKey list" where
  "infraMachineToMachine obj = ownerMachine (co_namespace obj) (co_ownerReferences obj)"

text \<open>The options the controller is built with.\<close>

record controller_options =
  ctl_name :: string
  MaxConcurrentReconciles :: int
  backoff_base :: duration
  backoff_max :: duration

definition SetupWithManager :: "int \<Rightarrow> controller_options" where
  "SetupWithManager concurrency =
     \<lparr>ctl_name = TeardownName, MaxConcurrentReconciles = concurrency,
      backoff_base = 5 * Second, backoff_max = 30 * Second\<rparr>"

section \<open>Lemmas\<close>

lemma ownerMachine_find:
  "ownerMachine ns refs =
     (case find (\<lambda>r. or_kind r = ''Machine'') refs of None \<Rightarrow> [] | Some r \<Rightarrow> [\<lparr>Namespace = ns, Name = or_name r\<rparr>])"
  by (induction refs) auto

lemma length_ownerMachine: "length (ownerMachine ns refs) \<le> 1"
  by (induction refs) auto

lemma wp_clusterToMachines:
  "wp (clusterToMachines E obj) Q s \<longleftrightarrow>
     (let res = list_machines E (hist s) (co_namespace obj) [(CapiClusterNameLabel, co_name obj)] [];
          t = s\<lparr>hist := hist s @ [OListMachines (co_namespace obj) [(CapiClusterNameLabel, co_name obj)] [] res]\<rparr>
      in Q (case res of Inl _ \<Rightarrow> [] | Inr items \<Rightarrow> map ObjectKeyFromObject (filter serviced items)) t)"
  by (simp add: clusterToMachines_def go_wp Let_def serviced_def [abs_def] split: sum.split)

section \<open>Reconciles that do more than read\<close>

lemma wp_longer:
  assumes "\<And>a. grows (f a)"
  shows "wp (call mk ans \<bind> f) (\<lambda>_ t. length (hist s) < length (hist t)) s"
  unfolding wp_bind wp_call
  by (rule wp_mono [OF obeys_wp [OF assms]]) (auto simp: emits_rel_def)

lemma longer_then:
  assumes "wp p (\<lambda>_ t. length (hist s) < length (hist t)) s" and "\<And>a. grows (f a)"
  shows "wp (p \<bind> f) (\<lambda>_ t. length (hist s) < length (hist t)) s"
  unfolding wp_bind
  by (rule wp_mono [OF assms(1)]) (rule wp_mono [OF obeys_wp [OF assms(2)]], auto simp: emits_rel_def)

lemma longer_ensureCredentials: "wp (ensureCredentials E r) (\<lambda>_ t. length (hist s) < length (hist t)) s"
proof -
  have ensure: "wp (Ensure E ns key) (\<lambda>_ t. length (hist s) < length (hist t)) s" for ns key
    unfolding Ensure_def Let_def by (rule wp_longer) (intro emits_rules; simp)
  show ?thesis
    unfolding ensureCredentials_def event_def wp_bind [of theMachine] wp_theMachine
    by (rule longer_then [OF ensure]) (intro emits_rules; simp)
qed

lemma longer_ensureHook:
  assumes "\<not> HasHook (machine s)" and "StampAllowed (machine s)"
  shows "wp (ensureHook E) (\<lambda>_ t. length (hist s) < length (hist t)) s"
proof -
  have "wp (patchAnnotations E f) (\<lambda>_ t. length (hist s) < length (hist t)) s" for f
    unfolding patchAnnotations_def Let_def wp_bind [of theMachine] wp_theMachine
    by (rule wp_longer) (intro emits_rules emits_setMachine; simp)
  note patch = longer_then [OF this]
  show ?thesis
    unfolding ensureHook_def event_def wp_bind [of theMachine] wp_theMachine
    using assms by (auto intro!: patch emits_rules)
qed

lemma longer_lateStamp:
  assumes "\<not> HasHook (machine s)" and "\<not> mhas (m_annotations (machine s)) ResetAnnotation" and "StampAllowed (machine s)"
  shows "wp (lateStamp E r) (\<lambda>_ t. length (hist s) < length (hist t)) s"
  unfolding lateStamp_def wp_bind [of theMachine] wp_theMachine
  using assms by (auto intro!: longer_then [OF longer_ensureHook] emits_rules grows_ops)

lemma longer_runPhases: "wp (runPhases E r) (\<lambda>_ t. length (hist s) < length (hist t)) s"
proof (cases "recordedObservedAt E (machine s)")
  case None
  have "wp (ensureObservedAt E) (\<lambda>_ t. length (hist s) < length (hist t)) s"
    using None unfolding ensureObservedAt_def now_def wp_bind [of theMachine] wp_theMachine
    by (auto intro!: wp_longer emits_rules emits_theMachine emits_setMachine simp: patchAnnotations_def Let_def)
  then show ?thesis
    unfolding runPhases_def by (rule longer_then) (intro emits_rules grows_phases grows_ops)
next
  case (Some at)
  have "wp (clusterDeleting E) (\<lambda>_ t. length (hist s) < length (hist t)) s"
    unfolding clusterDeleting_def wp_bind [of theMachine] wp_theMachine
    by (rule wp_longer) (intro emits_rules; simp)
  then have "wp (fromCluster E r at) (\<lambda>_ t. length (hist s) < length (hist t)) s"
    by (rule longer_then) (intro emits_rules grows_phases grows_ops)
  with Some show ?thesis
    by (simp add: runPhases_def ensureObservedAt_def wp_bind [of "theMachine \<bind> _"] wp_bind [of theMachine]
        wp_theMachine wp_return wp_bind [of "ret _"])
qed

text \<open>A Machine the watch admits is serviced, unless its deletion leaves nothing to do.\<close>

lemma reconcile_works:
  assumes "get_machine E h req = Inr m" and "Qualifies m \<or> HasHook m"
    and "m_deletionTimestamp m \<noteq> None \<Longrightarrow> if HasHook m then AtPreTerminate m \<and> \<not> HasOtherPreTerminateHooks m
       else \<not> mhas (m_annotations m) ResetAnnotation \<and> StampAllowed m"
  shows "1 < length (reconcile_trace E r req h)"
proof (rule reconcile_rule [where P = "\<lambda>_ new _. 1 < length new"], rule wp_ReconcileI, goal_cases)
  case (3 m')
  then have m: "m' = m" using assms(1) by simp
  have "wp (reconcileNormal E r) (\<lambda>_ t. length (hist (fetched (start h) req m)) < length (hist t)) (fetched (start h) req m)"
  proof (cases "HasHook m")
    case True
    then show ?thesis
      using longer_ensureCredentials [of E r "fetched (start h) req m"] by (simp add: reconcileNormal_def ensureHook_def go_wp)
  next
    case False
    moreover have "StampAllowed m" using 3 m by (simp add: StampAllowed_def)
    ultimately show ?thesis
      unfolding reconcileNormal_def
      by (intro longer_then longer_ensureHook) (simp_all, intro emits_rules grows_ops)
  qed
  then show ?case unfolding m by (rule wp_mono) auto
next
  case (4 m')
  then have m: "m' = m" using assms(1) by simp
  have "wp (reconcileDeleting E r) (\<lambda>_ t. length (hist (fetched (start h) req m)) < length (hist t)) (fetched (start h) req m)"
  proof (cases "HasHook m")
    case True
    then show ?thesis
      using longer_runPhases [of E r "fetched (start h) req m"] assms(3) 4 m by (simp add: reconcileDeleting_def lateStamp_def go_wp)
  next
    case False
    then have "wp (lateStamp E r) (\<lambda>_ t. length (hist (fetched (start h) req m)) < length (hist t)) (fetched (start h) req m)"
      using assms(3) 4 m by (intro longer_lateStamp) auto
    then show ?thesis
      unfolding reconcileDeleting_def
      by (rule longer_then) (intro emits_rules emits_theMachine grows_runPhases)
  qed
  then show ?case unfolding m by (rule wp_mono) auto
qed (use assms in auto)

end
