(* ===== verification/Teardown_Properties.thy ===== *)
theory Teardown_Properties
  imports Scenario Reconciler_Reset Reconciler_Connections Reconciler_Progress Setup
begin

text \<open>
  The properties of the teardown controller, each with a witness on the scenario of
  \<open>Scenario\<close> where it has hypotheses.
\<close>

section \<open>Release\<close>

text \<open>
  C1. In every run of the controller, over any number of reconciles (restarts included) and whatever
  the API server and the nodes answer: a patch that takes the teardown hook off a Machine is preceded
  by the accepted conclusion of the reset phase of that Machine and, for a control-plane Machine, of
  its etcd phase: the Machine carries the annotation, and the API server has shown or accepted it.
\<close>

theorem release_only_after_teardown:
  assumes "reconcile_runs E r reqs [] = pre @ OPatch before after ans # post"
    and "HasHook before" and "\<not> HasHook after"
  shows "(\<exists>v. map_of (m_annotations before) ResetAnnotation = Some v \<and>
              persisted pre (ObjectKeyFromObject before) ResetAnnotation v) \<and>
         (IsControlPlane before \<longrightarrow>
            (\<exists>v. map_of (m_annotations before) EtcdAnnotation = Some v \<and>
                 persisted pre (ObjectKeyFromObject before) EtcdAnnotation v))"
proof -
  have "justified (release_justified E) (reconcile_runs E r reqs [])"
    by (rule justified_reconcile_runs) (simp_all add: justifies_Reconcile)
  from justifiedD [OF this assms(1)] have "release_justified E pre (OPatch before after ans)" .
  with assms(2,3) have "teardown_concluded before pre" by auto
  then show ?thesis
    by (simp add: teardown_concluded_def concluded_def)
qed

theorem release_only_after_teardown_witness:
  "persisted (take 30 ex_trace) (ObjectKeyFromObject ex_reset_done) ResetAnnotation ResetDone \<and>
   persisted (take 30 ex_trace) (ObjectKeyFromObject ex_reset_done) EtcdAnnotation EtcdLeft"
proof -
  have split: "reconcile_runs ex_cp_world ex_reconciler [ex_key] [] =
      take 30 ex_trace @ OPatch ex_reset_done ex_released None # drop 31 ex_trace"
    by (simp add: ex_cp_trace) (simp add: ex_trace_def)
  have "HasHook ex_reset_done" "\<not> HasHook ex_released" "IsControlPlane ex_reset_done"
    "map_of (m_annotations ex_reset_done) ResetAnnotation = Some ResetDone"
    "map_of (m_annotations ex_reset_done) EtcdAnnotation = Some EtcdLeft"
    by (simp_all add: ex_reset_done_def ex_etcd_done_def ex_released_def mhas_def)
  with release_only_after_teardown [OF split] show ?thesis by simp
qed

section \<open>Guards\<close>

text \<open>
  C2. No Talos node is dialled or called in a reconcile unless the Machine read at its start is
  serviced by the controller (it qualifies or carries the hook), is being deleted, has reached the
  pre-terminate wait, and carries no pre-terminate hook of anyone else.
\<close>

theorem talos_calls_guarded:
  assumes "x \<in> set (reconcile_trace E r req h)" and "is_talos x"
    and "\<And>m. get_machine E h req = Inr m \<Longrightarrow> wf_machine m"
  shows "\<exists>m. get_machine E h req = Inr m \<and> (Qualifies m \<or> HasHook m) \<and>
     m_deletionTimestamp m \<noteq> None \<and> AtPreTerminate m \<and> \<not> HasOtherPreTerminateHooks m"
proof (rule ccontr)
  assume "\<not> ?thesis"
  then have "list_all (\<lambda>x. \<not> is_talos x) (reconcile_trace E r req h)"
    using assms(3) by (intro Reconcile_held) (auto simp: may_act_def)
  with assms(1,2) show False by (auto simp: list_all_iff)
qed

theorem talos_calls_guarded_witness:
  "\<exists>m. get_machine ex_cp_world [] ex_key = Inr m \<and> (Qualifies m \<or> HasHook m) \<and>
     m_deletionTimestamp m \<noteq> None \<and> AtPreTerminate m \<and> \<not> HasOtherPreTerminateHooks m"
proof -
  have x: "OResetGeneric (ex_client ''10.0.0.1'' 19) (ResetCallTimeout ex_reconciler) resetRequest None
      \<in> set (reconcile_trace ex_cp_world ex_reconciler ex_key [])"
    by (simp add: ex_cp_trace) (simp add: ex_trace_def)
  show ?thesis by (rule talos_calls_guarded [OF x]) simp_all
qed

text \<open>
  C3. A reconcile leaves a Machine alone, doing nothing but reading it, when the Machine is none of
  the controller's (neither qualifying nor hooked), or when it is being deleted without the hook and
  either its teardown has already been concluded (no stamp-and-release loop) or its deletion is
  past the pre-terminate wait (no parking in the middle of a power-off).
\<close>

theorem reconcile_leaves_alone:
  assumes "get_machine E h req = Inr m"
    and "\<not> HasHook m"
    and "\<not> Qualifies m \<or>
         (m_deletionTimestamp m \<noteq> None \<and> (mhas (m_annotations m) ResetAnnotation \<or> \<not> StampAllowed m))"
  shows "reconcile_trace E r req h = [OGetMachine req (Inr m)] \<and>
         reconcile_result E r req h = Inr ZeroResult"
  using assms
  by (auto simp: reconcile_trace_def reconcile_result_def Reconcile_def reconcileDeleting_def lateStamp_def)

theorem reconcile_leaves_alone_witness:
  "reconcile_trace (ex_world ex_released [] 0) ex_reconciler ex_key [] = [OGetMachine ex_key (Inr ex_released)]"
  using reconcile_leaves_alone [of "ex_world ex_released [] 0" "[]" ex_key ex_released ex_reconciler]
  by (simp add: ex_released_def ex_reset_done_def)

text \<open>
  C4. Frame: every patch in a run of the controller changes annotations only, and of these only the controller's
  own keys and hook keys that carry the controller's value. Annotations of anyone else are neither
  changed, nor removed, nor added.
\<close>

theorem patches_keep_foreign_annotations:
  assumes "OPatch before after ans \<in> set (reconcile_runs E r reqs [])"
    and "wf_machine before"
  shows "after = before\<lparr>m_annotations := m_annotations after\<rparr> \<and>
     (\<forall>k v. \<not> own_annotation k v \<longrightarrow>
        (map_of (m_annotations after) k = Some v \<longleftrightarrow> map_of (m_annotations before) k = Some v))"
proof -
  have "frame before after"
    using justified_mem [OF justified_reconcile_runs assms(1), of patch_framed]
    by (auto simp: justifies_frame)
  then have "same_but_annotations before after"
    and "foreign_part (m_annotations after) k = foreign_part (m_annotations before) k" for k
    using assms(2) by (auto simp: frame_def)
  then show ?thesis
    by (metis foreign_part_Some same_but_annotations_def)
qed

theorem patches_keep_foreign_annotations_witness:
  "ex_released = ex_reset_done\<lparr>m_annotations := m_annotations ex_released\<rparr>"
proof -
  have x: "OPatch ex_reset_done ex_released None \<in> set (reconcile_runs ex_cp_world ex_reconciler [ex_key] [])"
    by (simp add: ex_cp_trace) (simp add: ex_trace_def)
  have "wf_machine ex_reset_done"
    using ex_victim_sel(16) by (simp add: ex_reset_done_def ex_etcd_done_def wf_machine_def)
  from patches_keep_foreign_annotations [OF x this] show ?thesis by simp
qed

section \<open>The etcd phase\<close>

text \<open>
  C5. Verify, then act: before a reconcile forfeits leadership, leaves the etcd cluster or removes a
  member, it has read the Machine and found it to be a control-plane Machine of a live cluster whose
  turn it is (no queued Machine with an older deletion); it has asked a candidate peer (listed, not
  the victim, not deleting, not leaving), reached at that peer's own address, which reported a
  running and healthy etcd and a member list that contains the victim under one of its host names.
  A removal goes through that peer and names that member; leave and forfeit go to the victim's own
  address, and the forfeit is skipped for a Machine marked as leaving.
\<close>

theorem etcd_operations_verified:
  assumes "reconcile_trace E r req [] = pre @ x # post" and "is_membership_op x"
    and "\<And>m. get_machine E [] req = Inr m \<Longrightarrow> wf_machine m"
  shows "\<exists>m c member. etcd_turn req m pre \<and> member_seen E m c member pre \<and> op_fits m c member pre x"
  using justifiedD [OF etcd_Reconcile [OF assms(3)] assms(1)] assms(2)
  by (simp add: etcd_justified_def etcd_evidence_def)

theorem etcd_operations_verified_witness:
  "\<exists>m c member. etcd_turn ex_key m (take 11 ex_trace) \<and> member_seen ex_cp_world m c member (take 11 ex_trace) \<and>
     op_fits m c member (take 11 ex_trace)
       (OEtcdLeaveCluster (ex_client ''10.0.0.1'' 8) (EtcdCallTimeout ex_reconciler) None)"
proof -
  have split: "reconcile_trace ex_cp_world ex_reconciler ex_key [] = take 11 ex_trace @
      OEtcdLeaveCluster (ex_client ''10.0.0.1'' 8) (EtcdCallTimeout ex_reconciler) None # drop 12 ex_trace"
    by (simp add: ex_cp_trace) (simp add: ex_trace_def)
  show ?thesis by (rule etcd_operations_verified [OF split]) simp_all
qed

text \<open>
  C6. One at a time: among the Machines of a listing that are being deleted under the hook, at most
  one (by name) passes \<open>serializeControlPlane\<close>, at least one does if there is any, and the
  check never dereferences a missing timestamp for such a Machine.
\<close>

theorem control_plane_serialized:
  assumes "m \<in> set items" and "queued m"
  shows "(\<exists>m' \<in> set items. queued m' \<and> serialHold items m' = Inr False) \<and>
     (\<forall>m1 \<in> set items. \<forall>m2 \<in> set items. queued m1 \<and> queued m2 \<and>
        serialHold items m1 = Inr False \<and> serialHold items m2 = Inr False \<longrightarrow> m_name m1 = m_name m2) \<and>
     (\<exists>b. serialHold items m = Inr b)"
proof (intro conjI ballI impI)
  show "\<exists>m' \<in> set items. queued m' \<and> serialHold items m' = Inr False"
    by (rule serial_someone [OF assms])
  show "m_name m1 = m_name m2"
    if "m1 \<in> set items" "m2 \<in> set items"
      "queued m1 \<and> queued m2 \<and> serialHold items m1 = Inr False \<and> serialHold items m2 = Inr False" for m1 m2
    using that serial_exclusive by blast
  show "\<exists>b. serialHold items m = Inr b"
    using assms(2) by (intro serialHold_total) (simp add: queued_def)
qed

theorem control_plane_serialized_witness:
  "\<exists>m' \<in> set [ex_victim, ex_peer]. queued m' \<and> serialHold [ex_victim, ex_peer] m' = Inr False"
  using control_plane_serialized [of ex_victim "[ex_victim, ex_peer]"] by (simp add: queued_def)

text \<open>
  C7. The peers asked are exactly the listed Machines other than the victim that are not being deleted and do not announce to leave etcd,
  each as often as it is listed; those with a node reference are asked first, and within each group the one created first, names breaking ties.
\<close>

theorem peers_ordered:
  "mset (orderPeers items victim) =
     filter_mset (\<lambda>p. m_name p \<noteq> m_name victim \<and> m_deletionTimestamp p = None \<and>
       map_of (m_annotations p) EtcdLeavingAnnotation = None) (mset items) \<and>
   sorted_wrt (\<lambda>a b.
       if m_nodeRefName a \<noteq> ''''
       then m_nodeRefName b = '''' \<or> m_creationTimestamp a < m_creationTimestamp b \<or>
         m_creationTimestamp a = m_creationTimestamp b \<and> m_name a \<le> m_name b
       else m_nodeRefName b = '''' \<and> (m_creationTimestamp a < m_creationTimestamp b \<or>
         m_creationTimestamp a = m_creationTimestamp b \<and> m_name a \<le> m_name b)) (orderPeers items victim)"
proof
  have "peerCandidate victim = (\<lambda>p. m_name p \<noteq> m_name victim \<and> m_deletionTimestamp p = None \<and>
      map_of (m_annotations p) EtcdLeavingAnnotation = None)"
    by (auto simp: peerCandidate_def mhas_def fun_eq_iff)
  then show "mset (orderPeers items victim) =
     filter_mset (\<lambda>p. m_name p \<noteq> m_name victim \<and> m_deletionTimestamp p = None \<and>
       map_of (m_annotations p) EtcdLeavingAnnotation = None) (mset items)"
    by (simp add: mset_orderPeers)
qed (rule asked_before_sorted [unfolded asked_before_def [abs_def] older_def])

text \<open>
  Equivalence of the sort: with distinct names, any list that has the same Machines and is
  ordered by age and name is the one \<open>sortByAge\<close> returns, so the instability of the
  library's sort does not matter.
\<close>

theorem sort_by_age_determined:
  assumes "distinct (map m_name ms)" and "mset ms' = mset ms" and "sorted (map age_key ms')"
  shows "ms' = sortByAge ms"
  by (rule sortByAge_unique [OF assms])

theorem sort_by_age_determined_witness: "[ex_victim, ex_peer] = sortByAge [ex_peer, ex_victim]"
proof (rule sort_by_age_determined)
  have "''cp-1'' \<le> ''cp-2''" by (simp add: less_char_def)
  then show "sorted (map age_key [ex_victim, ex_peer])"
    by (simp add: age_key_def ex_peer_def)
qed simp_all

section \<open>The reset phase\<close>

text \<open>
  C9. A node is reset at most once per reconcile, with the one request that wipes STATE and EPHEMERAL
  and neither reboots nor leaves gracefully, at an address read from the Machine's own
  sources, never when the Machine as read already records a conclusion, and for a control-plane
  Machine only after the API server has shown or accepted the conclusion of its etcd phase.
\<close>

theorem reset_verified:
  assumes "reconcile_trace E r req [] = pre @ OResetGeneric c d q ans # post"
    and "\<And>m. get_machine E [] req = Inr m \<Longrightarrow> wf_machine m"
  shows "\<not> rr_graceful q \<and> \<not> rr_reboot q \<and>
     rr_wipe q = [\<lparr>ps_label = ''STATE'', ps_wipe = True\<rparr>, \<lparr>ps_label = ''EPHEMERAL'', ps_wipe = True\<rparr>] \<and>
     d = ResetCallTimeout r \<and> \<not> list_ex is_reset pre \<and>
     (\<exists>m. OGetMachine req (Inr m) \<in> set pre \<and> \<not> mhas (m_annotations m) ResetAnnotation \<and>
          address_evidence pre m (cl_endpoint c) \<and>
          (IsControlPlane m \<longrightarrow> (\<exists>v. persisted pre (ObjectKeyFromObject m) EtcdAnnotation v)))"
  using justifiedD [OF reset_Reconcile [OF assms(2)] assms(1)]
  by (simp add: reset_evidence_def resetRequest_def)

theorem reset_verified_witness: "\<not> list_ex is_reset (take 21 ex_trace)"
proof -
  have split: "reconcile_trace ex_cp_world ex_reconciler ex_key [] = take 21 ex_trace @
      OResetGeneric (ex_client ''10.0.0.1'' 19) (ResetCallTimeout ex_reconciler) resetRequest None # drop 22 ex_trace"
    by (simp add: ex_cp_trace) (simp add: ex_trace_def)
  show ?thesis using reset_verified [OF split] by simp
qed

section \<open>Progress and errors\<close>

text \<open>
  C10. Fail open: when the pre-terminate wait was first observed so long ago that both deadlines have passed, the API server takes
  writes, the Cluster can be read or is gone, and no older deletion queued under the hook holds the Machine (this wait has no
  deadline, see C24), one reconcile ends without error and without a requeue, and a patch of the Machine that takes the hook off has been accepted,
  whatever the Talos nodes, the secrets and the infrastructure objects answer.
\<close>

theorem teardown_fails_open:
  assumes "get_machine E h req = Inr m" and "HasHook m" and "m_deletionTimestamp m \<noteq> None"
    and "AtPreTerminate m" and "\<not> HasOtherPreTerminateHooks m"
    and "accepts_patches E" and "recordedObservedAt E m = Some since" and "deadlines_passed E r since"
    and "unblocked E m"
  shows "reconcile_result E r req h = Inr ZeroResult \<and>
     (\<exists>before after. OPatch before after None \<in> set (reconcile_trace E r req h) \<and> HasHook before \<and> \<not> HasHook after \<and>
        ObjectKeyFromObject after = ObjectKeyFromObject m)"
  by (rule reconcile_rule [where P = "\<lambda>res new _. res = Inr ZeroResult \<and>
       (\<exists>before after. OPatch before after None \<in> set new \<and> HasHook before \<and> \<not> HasHook after \<and>
          ObjectKeyFromObject after = ObjectKeyFromObject m)"])
     (rule wp_mono [OF open_Reconcile [OF assms]], simp)

theorem teardown_fails_open_witness:
  "reconcile_result (ex_world ex_victim [ex_victim, ex_peer] (ex_time + 60 * Minute)
       \<lparr>dial := \<lambda>_ _. Some ''refused''\<rparr>) ex_reconciler ex_key [] = Inr ZeroResult"
  by (rule teardown_fails_open [where m = ex_victim and since = 1714557600000000000, THEN conjunct1])
     (simp_all add: accepts_patches_def recordedObservedAt_def deadlines_passed_def unblocked_def
        ex_reconciler_def ex_time_def Minute_def Second_def)

text \<open>
  C24. The serialization has no deadline: as long as the listing of a live cluster shows another control-plane Machine under the hook whose
  deletion is older (names breaking ties), a control-plane Machine whose etcd phase is not concluded waits: each reconcile ends in a requeue after 15
  seconds, whatever the clock shows, and does nothing but read the Machine, its Cluster and that listing.
\<close>

theorem older_deletion_holds:
  assumes "get_machine E h req = Inr m" and "HasHook m" and "m_deletionTimestamp m = Some d"
    and "AtPreTerminate m" and "\<not> HasOtherPreTerminateHooks m" and "IsControlPlane m"
    and "\<not> mhas (m_annotations m) EtcdAnnotation" and "recordedObservedAt E m = Some since"
    and "\<And>h. get_cluster E h (clusterKeyFor m) = Inr \<lparr>cl_deletionTimestamp = None\<rparr>"
    and "\<And>h. list_machines E h (m_namespace m) [(CapiClusterNameLabel, Name (clusterKeyFor m))]
           [MachineControlPlaneLabel] = Inr items"
    and "peer \<in> set items" and "m_name peer \<noteq> m_name m" and "HasHook peer" and "m_deletionTimestamp peer = Some p"
    and "p < d \<or> p = d \<and> m_name peer < m_name m"
  shows "reconcile_result E r req h = Inr \<lparr>RequeueAfter = 15 * Second\<rparr> \<and>
     reconcile_trace E r req h =
       [OGetMachine req (Inr m), OGetCluster (clusterKeyFor m) (Inr \<lparr>cl_deletionTimestamp = None\<rparr>),
        OListMachines (m_namespace m) [(CapiClusterNameLabel, Name (clusterKeyFor m))] [MachineControlPlaneLabel] (Inr items)]"
proof -
  note hold = serialHold_waits [OF assms(3,11,12,13,14,15)]
  with assms(1-10) show ?thesis
    by (simp add: reconcile_result_def reconcile_trace_def Reconcile_def reconcileDeleting_def lateStamp_def
        runPhases_def ensureObservedAt_def clusterDeleting_def etcdPhase_def serializeControlPlane_def
        listControlPlaneMachines_def hookWaitRequeue_def IsZero_def Second_def Let_def)
qed

definition ex_older :: Machine where
  "ex_older = ex_victim\<lparr>m_name := ''cp-3'', m_deletionTimestamp := Some 50\<rparr>"

theorem older_deletion_holds_witness:
  "reconcile_result (ex_world ex_victim [ex_victim, ex_older] (ex_time + 60 * Minute)) ex_reconciler ex_key [] =
     Inr \<lparr>RequeueAfter = 15 * Second\<rparr>"
  by (rule older_deletion_holds [where m = ex_victim and peer = ex_older and items = "[ex_victim, ex_older]" and d = 100
        and p = 50 and since = 1714557600000000000, THEN conjunct1])
     (simp_all add: ex_older_def recordedObservedAt_def HasHook_def mhas_def)

text \<open>
  C11. Connections: in every reconcile, whatever fails, each call to a Talos node goes through a client that was dialled before and has not been
  closed, and every client that was dialled is closed, exactly once.
\<close>

theorem connections_closed:
  "sessions {#} (reconcile_trace E r req h) = Some {#}"
  by (rule reconcile_balanced)

text \<open>
  C12. A reconcile never dereferences a nil timestamp: whatever is listed, its result is no
  run-time panic (provided the patch library returns none).
\<close>

theorem reconcile_no_panic:
  assumes "\<And>h m e. new_helper E h m = Some e \<Longrightarrow> err_root e \<noteq> NilDeref"
  shows "no_panic (reconcile_result E r req h)"
  using np_Reconcile [of E r req "start h"] assms
  by (simp add: wp_def case_prod_beta reconcile_result_def helper_sane_def)

theorem reconcile_no_panic_witness: "no_panic (reconcile_result ex_cp_world ex_reconciler ex_key [])"
  by (rule reconcile_no_panic) simp

text \<open>
  C13. Restarts do not reset the clock: the start of the wait that \<open>ensureObservedAt\<close> returns is the
  one the annotation holds afterwards, parsed back from its RFC 3339 text; and where it was recorded
  before, it is returned unchanged and nothing is written.
\<close>

theorem observed_at_survives:
  assumes "\<And>h. in_calendar (now_at E h)" and "run_state (ensureObservedAt E) s = (Inr t0, t)"
  shows "recordedObservedAt E (machine t) = Some t0 \<and>
     (recordedObservedAt E (machine s) \<noteq> None \<longrightarrow> recordedObservedAt E (machine s) = Some t0 \<and> t = s)"
proof
  show "recordedObservedAt E (machine t) = Some t0"
    using wp_run [OF assms(2) observedAt_recorded [OF assms(1)]] by simp
  show "recordedObservedAt E (machine s) \<noteq> None \<longrightarrow> recordedObservedAt E (machine s) = Some t0 \<and> t = s"
    using assms(2) by (auto simp: ensureObservedAt_def)
qed

theorem observed_at_survives_witness:
  "recordedObservedAt ex_cp_world (machine (fetched (start []) ex_key ex_victim)) = Some 1714557600000000000"
proof -
  have run: "run_state (ensureObservedAt ex_cp_world) (fetched (start []) ex_key ex_victim) =
      (Inr 1714557600000000000, fetched (start []) ex_key ex_victim)"
    by (simp add: ensureObservedAt_def recordedObservedAt_def)
  have "in_calendar (now_at ex_cp_world h)" for h
    by (simp add: in_calendar_def ex_time_def Second_def epoch_day_def)
  from observed_at_survives [OF this run] show ?thesis by blast
qed

text \<open>
  A failed attempt of the etcd phase before its deadline is returned as a transient error; apart
  from one look at the clock nothing happens after the attempt, so nothing is concluded.
\<close>

theorem failed_etcd_attempt_is_transient:
  assumes "run_state (tryEtcdRemoval E r) s = (Inl err, t)"
    and "now_at E (hist t) \<le> observedAt + EtcdTimeout r"
  shows "run_state (ensureEtcdRemoved E r observedAt) s =
     (Inl (ETransient err), t\<lparr>hist := hist t @ [ONow (now_at E (hist t))]\<rparr>)"
  by (rule failed_attempt [OF assms])

theorem failed_etcd_attempt_is_transient_witness:
  "fst (run_state (ensureEtcdRemoved (ex_world ex_victim [] ex_time) ex_reconciler 1714557600000000000)
      (fetched (start []) ex_key ex_victim)) = Inl (ETransient (ENew ''no healthy etcd peer reachable''))"
proof -
  have "\<exists>t. run_state (tryEtcdRemoval (ex_world ex_victim [] ex_time) ex_reconciler)
      (fetched (start []) ex_key ex_victim) = (Inl (ENew ''no healthy etcd peer reachable''), t)"
    by (simp add: reconcile_eval data_eval Let_def)
  then obtain t where "run_state (tryEtcdRemoval (ex_world ex_victim [] ex_time) ex_reconciler)
      (fetched (start []) ex_key ex_victim) = (Inl (ENew ''no healthy etcd peer reachable''), t)" ..
  from failed_etcd_attempt_is_transient [OF this] show ?thesis
    by (simp add: ex_time_def ex_reconciler_def Minute_def Second_def)
qed

section \<open>Hooks\<close>

text \<open>
  C15. The release leaves no pre-terminate hook behind: for a hooked Machine without hooks of anyone
  else, \<open>release\<close> sends one patch, after which no pre-terminate hook is left (the controller's
  own and its leftovers under an old key are gone) while the recorded conclusions stay.
\<close>

theorem release_clears_hooks:
  assumes "wf_machine (machine s)" and "HasHook (machine s)" and "\<not> HasOtherPreTerminateHooks (machine s)"
    and "new_helper E (hist s) (machine s) = None"
  shows "wp (release E)
     (\<lambda>_ t. pre_terminate_hooks (machine t) = {} \<and>
        (\<exists>ans. OPatch (machine s) (machine t) ans \<in> set (hist t)) \<and>
        (\<forall>k \<in> {ObservedAtAnnotation, EtcdAnnotation, ResetAnnotation}.
           map_of (m_annotations (machine t)) k = map_of (m_annotations (machine s)) k)) s"
proof -
  let ?m = "(machine s)\<lparr>m_annotations := mdel_all (legacyHookKeys (machine s)) (mdel HookAnnotation (m_annotations (machine s)))\<rparr>"
  have "pre_terminate_hooks ?m = {}"
    using no_other_hooks_own [OF assms(1,3)] by (auto simp: pre_terminate_hooks_def)
  with assms(2,4) show ?thesis
    by (auto simp: release_def patchAnnotations_def go_wp Let_def event_def split: option.split)
qed

theorem release_clears_hooks_witness:
  "pre_terminate_hooks (machine (snd (run_state (release ex_cp_world) (fetched (start []) ex_key ex_victim)))) = {}"
  using release_clears_hooks [of "fetched (start []) ex_key ex_victim" ex_cp_world]
  by (simp add: wp_def case_prod_beta)

text \<open>
  C16. A healthy qualifying Machine without the hook gets it on the API server: its reconcile has a patch from the Machine as read to
  one with the controller's hook value accepted. Once it has the hook, reconciling it patches no Machine again.
\<close>

theorem healthy_machine_hooked:
  assumes "get_machine E h req = Inr m" and "m_deletionTimestamp m = None" and "Qualifies m"
    and "accepts_patches E"
  shows "(\<not> HasHook m \<longrightarrow> (\<exists>after. OPatch m after None \<in> set (reconcile_trace E r req h) \<and>
        map_of (m_annotations after) HookAnnotation = Some HookValue)) \<and>
     (HasHook m \<longrightarrow> \<not> list_ex is_patch (reconcile_trace E r req h) \<and> reconcile_machine E r req h = m)"
proof -
  have creds: "wp (ensureCredentials E r) (\<lambda>_ t. machine t = machine s \<and>
      (\<exists>new. hist t = hist s @ new \<and> \<not> list_ex is_patch new)) s" for s
    by (rule wp_mono [OF wp_conj [OF obeys_wp [OF keep_ensureCredentials] obeys_wp [OF no_patch_ops(8)]]])
       (auto simp: keep_rel_def emits_rel_def list_all_iff list_ex_iff dest: patch_is_version)
  have stamp: "StampAllowed m" using assms(2) by (simp add: StampAllowed_def)
  let ?P = "\<lambda>new m'. (\<not> HasHook m \<longrightarrow> (\<exists>after. OPatch m after None \<in> set new \<and>
        map_of (m_annotations after) HookAnnotation = Some HookValue)) \<and>
      (HasHook m \<longrightarrow> \<not> list_ex is_patch new \<and> m' = m)"
  have "wp (Reconcile E r req) (\<lambda>_ t. \<forall>new. hist t = h @ new \<longrightarrow> ?P new (machine t)) (start h)"
  proof (rule wp_ReconcileI, goal_cases)
    case (3 m')
    then have m': "m' = m" using assms(1) by simp
    have hook: "wp (ensureHook E) (\<lambda>res t. res = Inr () \<and> (\<exists>new. hist t = h @ new \<and> ?P new (machine t)))
        (fetched (start h) req m)"
      using stamp assms(4) unfolding ensureHook_def patchAnnotations_def
      by (auto simp: go_wp event_def Let_def accepts_patches_def)
    show ?case
      unfolding m' reconcileNormal_def wp_bind
      by (rule wp_mono [OF hook]) (auto intro!: wp_mono [OF creds])
  qed (use assms in auto)
  then show ?thesis
    by (rule reconcile_rule [where P = "\<lambda>_. ?P"])
qed

theorem healthy_machine_hooked_witness:
  "\<exists>after. OPatch (ex_healthy ex_victim) after None
       \<in> set (reconcile_trace (ex_world (ex_healthy ex_victim) [] 0) ex_reconciler ex_key []) \<and>
     map_of (m_annotations after) HookAnnotation = Some HookValue"
  using healthy_machine_hooked [of "ex_world (ex_healthy ex_victim) [] 0" "[]" ex_key "ex_healthy ex_victim" ex_reconciler]
  by (simp add: ex_healthy_def accepts_patches_def HasHook_def Qualifies_def mhas_def ex_victim_def)

text \<open>
  C17. The watch and the reconciler agree: a Machine is read and nothing else is done exactly if \<open>machinePredicate\<close> drops it,
  or its deletion gives the reconciler nothing to do now: it has the hook and is not at the
  pre-terminate wait or has hooks of others, or it has no hook and may get none. And a deleted Cluster
  fans out to exactly the listed Machines the predicate admits.
\<close>

theorem watch_agrees_with_reconcile:
  assumes "get_machine E h req = Inr m"
  shows "(reconcile_trace E r req h = [OGetMachine req (Inr m)]) =
       (\<not> machinePredicate (WMachine m) \<or>
        m_deletionTimestamp m \<noteq> None \<and>
          (if HasHook m then \<not> AtPreTerminate m \<or> HasOtherPreTerminateHooks m
           else mhas (m_annotations m) ResetAnnotation \<or> \<not> StampAllowed m)) \<and>
     (\<forall>F obj s items. list_machines F (hist s) (co_namespace obj) [(CapiClusterNameLabel, co_name obj)] [] = Inr items \<longrightarrow>
        fst (run_state (clusterToMachines F obj) (s :: rstate)) =
          map ObjectKeyFromObject (filter (\<lambda>m. machinePredicate (WMachine m)) items))"
proof
  let ?idle = "\<not> machinePredicate (WMachine m) \<or> m_deletionTimestamp m \<noteq> None \<and>
      (if HasHook m then \<not> AtPreTerminate m \<or> HasOtherPreTerminateHooks m
       else mhas (m_annotations m) ResetAnnotation \<or> \<not> StampAllowed m)"
  have "reconcile_trace E r req h = [OGetMachine req (Inr m)]" if ?idle
    using that assms by (auto simp: machinePredicate_def reconcile_trace_def Reconcile_def reconcileDeleting_def
        lateStamp_def split: if_splits)
  moreover have "length (reconcile_trace E r req h) > 1" if "\<not> ?idle"
    using that assms by (intro reconcile_works) (auto simp: machinePredicate_def split: if_splits)
  ultimately show "(reconcile_trace E r req h = [OGetMachine req (Inr m)]) = ?idle"
    by (cases ?idle) auto
qed (auto simp: machinePredicate_def clusterToMachines_def Let_def)

theorem watch_agrees_with_reconcile_witness:
  "reconcile_trace (ex_world zeroMachine [] 0) ex_reconciler ex_key [] = [OGetMachine ex_key (Inr zeroMachine)]"
proof -
  have "\<not> machinePredicate (WMachine zeroMachine)"
    by (simp add: machinePredicate_def zeroMachine_def Qualifies_def HasHook_def mhas_def)
  then show ?thesis
    using watch_agrees_with_reconcile [of "ex_world zeroMachine [] 0" "[]" ex_key zeroMachine ex_reconciler] by simp
qed

end
