(* ===== verification/Reconciler_Lifecycle.thy ===== *)
theory Reconciler_Lifecycle
  imports Reconciler_Guards "HOL-Library.Sublist"
begin

text \<open>
  Refinement: runs of the controller, seen through the records on one Machine, are runs of the lifecycle of
  \<open>Teardown_Lifecycle\<close>: in step with it within one reconcile, and lagging behind it over many, since the manager's client
  reads Machines from its cache.
\<close>

section \<open>The annotations a Machine has on the API server\<close>

text \<open>A merge patch (\<open>client.MergeFrom\<close>) sets and removes what differs between the two versions, and leaves the rest.\<close>

type_synonym marks = "string \<rightharpoonup> string"

definition merge_patch :: "Machine \<Rightarrow> Machine \<Rightarrow> marks \<Rightarrow> marks" where
  "merge_patch before after L =
     (\<lambda>k. if map_of (m_annotations before) k = map_of (m_annotations after) k then L k
          else map_of (m_annotations after) k)"

fun writes :: "ObjectKey \<Rightarrow> obs \<Rightarrow> marks \<Rightarrow> marks" where
  "writes key (OPatch before after None) L = (if ObjectKeyFromObject after = key then merge_patch before after L else L)"
| "writes key _ L = L"

definition live :: "ObjectKey \<Rightarrow> marks \<Rightarrow> history \<Rightarrow> marks" where
  "live key L h = fold (writes key) h L"

lemma live_simps [simp]: "live key L [] = L" "live key L (h @ [x]) = writes key x (live key L h)"
  by (simp_all add: live_def)

text \<open>The controller knows of the deletion: it was known before, or a read has shown it.\<close>

fun shows_deletion :: "ObjectKey \<Rightarrow> obs \<Rightarrow> bool" where
  "shows_deletion key (OGetMachine k (Inr m)) = (k = key \<and> m_deletionTimestamp m \<noteq> None)"
| "shows_deletion key _ = False"

definition stored :: "env \<Rightarrow> ObjectKey \<Rightarrow> bool \<Rightarrow> marks \<Rightarrow> history \<Rightarrow> lifecycle" where
  "stored E key d L h = records_of E (d \<or> list_ex (shows_deletion key) h) (live key L h)"

text \<open>
  An answer of the cache: the Machine asked for, with the controller's annotations as the API server
  has them now or had them at some time before. Nothing is assumed of its other annotations, nor of when it shows the deletion.
\<close>

definition own_keys :: "string set" where
  "own_keys = {HookAnnotation, ObservedAtAnnotation, EtcdAnnotation, ResetAnnotation}"

fun cached :: "ObjectKey \<Rightarrow> marks \<Rightarrow> history \<Rightarrow> obs \<Rightarrow> bool" where
  "cached key L h (OGetMachine k (Inr m)) =
     (ObjectKeyFromObject m = k \<and>
      (k = key \<longrightarrow> (\<exists>h' \<in> set (prefixes h). \<forall>a \<in> own_keys. map_of (m_annotations m) a = live key L h' a)))"
| "cached key L h _ = True"

lemma records_own:
  "\<forall>a \<in> own_keys. L a = L' a \<Longrightarrow> records_of E d L = records_of E d L'"
  by (simp add: own_keys_def records_of_def)

lemma writes_view:
  assumes "writes_records E before after"
  shows "records_of E d (merge_patch before after L) = overwrite (view E before) (view E after) (records_of E d L)"
  using assms by (auto simp: records_of_def merge_patch_def overwrite_def view_def writes_records_def
      HasHook_def mhas_def recordedObservedAt_def)

section \<open>Patches advance\<close>

text \<open>Every patch of the Machine \<open>key\<close> starts from the version in hand and advances its records.\<close>

fun patch_advances :: "env \<Rightarrow> ObjectKey \<Rightarrow> history \<Rightarrow> obs \<Rightarrow> bool" where
  "patch_advances E key h (OPatch before after _) =
     (ObjectKeyFromObject after = key \<longrightarrow>
        held h = Some before \<and> same_but_annotations before after \<and> writes_records E before after \<and>
        advances (IsControlPlane before) (view E before) (view E after))"
| "patch_advances E key h _ = True"

lemma justified_patch_advances:
  assumes "sane_clock E" and "lenient E = lenient E'" and "justified (release_justified E) h"
  shows "justified (patch_advances E' key) h"
proof -
  have view: "view E' m = view E m" "recordedObservedAt E' m = recordedObservedAt E m" for m :: Machine
    using assms(2) by (simp_all add: view_def recordedObservedAt_def split: option.split)
  have "patch_advances E' key pre x" if "release_justified E pre x" for pre x
    using that assms(1) by (cases x) (auto simp: protocol_step_def writes_records_def view)
  with assms(3) show ?thesis by (rule justified_mono)
qed

section \<open>The refinement\<close>

text \<open>
  The correspondence: the lagging lifecycle reaches the records on the API server with a set of versions that has all the API
  server ever had, and the version in hand.
\<close>

definition simulates :: "env \<Rightarrow> ObjectKey \<Rightarrow> bool \<Rightarrow> marks \<Rightarrow> history \<Rightarrow> lifecycle set \<Rightarrow> bool" where
  "simulates E key d L h S =
     (lagging\<^sup>*\<^sup>* ({records_of E d L}, records_of E d L) (S, stored E key d L h) \<and>
      (\<forall>h' \<in> set (prefixes h). \<exists>d'. records_of E d' (live key L h') \<in> S) \<and>
      (\<forall>m. held h = Some m \<longrightarrow> ObjectKeyFromObject m = key \<longrightarrow> view E m \<in> S))"

lemma simulates_upheld: "simulates E key d L h S \<Longrightarrow> upheld S (stored E key d L h)"
  unfolding simulates_def by (elim conjE) (erule lagging_upheld, simp add: upheld_def)

text \<open>What neither shows a Machine nor is accepted.\<close>

lemma simulates_other:
  assumes "simulates E key d L h S" and "\<not> shows_deletion key x" and "writes key x (live key L h) = live key L h"
    and "\<And>m. sees x (held h) = Some m \<Longrightarrow> ObjectKeyFromObject m = key \<Longrightarrow> held h = Some m"
  shows "simulates E key d L (h @ [x]) S"
  using assms by (auto simp: simulates_def stored_def prefixes_snoc)

lemma simulates_read:
  assumes "simulates E key d L h S" and "cached key L h (OGetMachine key (Inr m))"
  shows "simulates E key d L (h @ [OGetMachine key (Inr m)]) (insert (view E m) S)"
proof -
  let ?dm = "m_deletionTimestamp m \<noteq> None"
  obtain h' d' where h': "h' \<in> set (prefixes h)" "records_of E d' (live key L h') \<in> S"
    and same: "\<forall>a \<in> own_keys. map_of (m_annotations m) a = live key L h' a"
    using assms by (auto simp: simulates_def)
  have view: "view E m = (records_of E d' (live key L h'))\<lparr>lc_deleting := ?dm\<rparr>"
    unfolding view_records records_own [OF same] by (simp add: records_of_def)
  have "stored E key d L (h @ [OGetMachine key (Inr m)]) =
      (stored E key d L h)\<lparr>lc_deleting := lc_deleting (stored E key d L h) \<or> ?dm\<rparr>"
    by (simp add: stored_def records_of_def)
  then have "lagging (S, stored E key d L h) (insert (view E m) S, stored E key d L (h @ [OGetMachine key (Inr m)]))"
    unfolding view using lagging.Read [OF h'(2)] by simp
  with assms(1) show ?thesis
    by (auto simp: simulates_def prefixes_snoc intro: rtranclp.rtrancl_into_rtrancl)
qed

lemma simulates_patch:
  assumes "simulates E key d L h S" and "patch_advances E key h (OPatch before after None)"
    and "ObjectKeyFromObject after = key"
  shows "simulates E key d L (h @ [OPatch before after None])
     ({view E after, stored E key d L (h @ [OPatch before after None])} \<union> S)"
proof -
  from assms(2,3) have p: "held h = Some before" "same_but_annotations before after" "writes_records E before after"
    "advances (IsControlPlane before) (view E before) (view E after)" by auto
  have "stored E key d L (h @ [OPatch before after None]) = overwrite (view E before) (view E after) (stored E key d L h)"
    using assms(3) by (simp add: stored_def writes_view [OF p(3)])
  moreover have "view E before \<in> S"
    using assms(1,3) p by (simp add: simulates_def same_but_annotations_facts)
  ultimately have "lagging (S, stored E key d L h)
      ({view E after, stored E key d L (h @ [OPatch before after None])} \<union> S, stored E key d L (h @ [OPatch before after None]))"
    using lagging.Write p(4) by simp
  with assms(1) show ?thesis
    by (auto simp: simulates_def prefixes_snoc stored_def intro: rtranclp.rtrancl_into_rtrancl)
qed

lemma simulates_history:
  assumes "justified (patch_advances E key) h" and "justified (cached key L) h"
  shows "\<exists>S. simulates E key d L h S"
  using assms
proof (induction h rule: rev_induct)
  case Nil
  have "simulates E key d L [] {records_of E d L}"
    by (auto simp: simulates_def stored_def held_def)
  then show ?case by blast
next
  case (snoc x h)
  then obtain S where S: "simulates E key d L h S" and x: "patch_advances E key h x" "cached key L h x" by auto
  show ?case
  proof (cases "(x, held h)" rule: sees.cases)
    case (1 k m)
    then show ?thesis
      using simulates_other [OF S, of x] simulates_read [OF S, of m] x by (cases "k = key") auto
  next
    case (2 b a)
    then show ?thesis
      using simulates_other [OF S, of x] simulates_patch [OF S, of b a] x by (cases "ObjectKeyFromObject a = key") auto
  qed (use simulates_other [OF S, of x] in auto)
qed

end
