(* ===== verification/Reconciler_Concurrency.thy ===== *)
theory Reconciler_Concurrency
  imports Reconciler_Lifecycle
begin

text \<open>
  The controller with several workers (\<open>MaxConcurrentReconciles\<close>): reconciles of different Machines interleave request by
  request, each with answers of its own; controller-runtime never reconciles one key twice at a time. The
  lifecycle is refined all the same, also with reads that lag behind; and what one reconcile writes is bounded.
\<close>

section \<open>Interleaved reconciles\<close>

text \<open>A reconcile of a key, with the world as it answers this reconcile.\<close>

type_synonym task = "ObjectKey \<times> env"

definition key_history :: "Reconciler \<Rightarrow> task list \<Rightarrow> ObjectKey \<Rightarrow> history" where
  "key_history r tasks key =
     concat (map (\<lambda>(k, E). reconcile_trace E r k []) (filter (\<lambda>(k, E). k = key) tasks))"

text \<open>
  The requests of all workers in the order they were made, each with the key under reconciliation. For every key they are
  the requests of its reconciles, one reconcile after the other.
\<close>

definition of_key :: "ObjectKey \<Rightarrow> (ObjectKey \<times> obs) list \<Rightarrow> history" where
  "of_key key g = map snd (filter (\<lambda>e. fst e = key) g)"

definition concurrent_run :: "Reconciler \<Rightarrow> task list \<Rightarrow> (ObjectKey \<times> obs) list \<Rightarrow> bool" where
  "concurrent_run r tasks g = (\<forall>key. of_key key g = key_history r tasks key)"

section \<open>A reconcile touches its own Machine only\<close>

fun touches :: "ObjectKey \<Rightarrow> obs \<Rightarrow> bool" where
  "touches key (OGetMachine k _) = (k = key)"
| "touches key (OPatch _ m _) = (ObjectKeyFromObject m = key)"
| "touches key _ = False"

lemma untouched: "\<not> touches key x \<Longrightarrow> writes key x L = L \<and> \<not> shows_deletion key x"
proof (cases x)
  case (OGetMachine k ans)
  then show "\<not> touches key x \<Longrightarrow> ?thesis" by (cases ans) auto
next
  case (OPatch b a ans)
  then show "\<not> touches key x \<Longrightarrow> ?thesis" by (cases ans) auto
qed simp_all

fun is_read :: "obs \<Rightarrow> bool" where
  "is_read (OGetMachine _ _) = True"
| "is_read _ = False"

lemma no_read_patch: "emits (\<lambda>x. \<not> is_read x) (patchAnnotations E f)"
  unfolding patchAnnotations_def by (intro emits_rules emits_theMachine emits_setMachine) simp_all

lemma no_read_ops:
  "emits (\<lambda>x. \<not> is_read x) (reconcileNormal E r)" "emits (\<lambda>x. \<not> is_read x) (reconcileDeleting E r)"
proof -
  have version: "emits (\<lambda>x. \<not> is_read x) p" if "emits (\<lambda>x. \<not> is_version x) p" for p :: "'b rprog"
    by (rule emits_mono [OF that]) (case_tac x; simp)
  note ops = no_patch_ops [THEN version] emits_theMachine no_read_patch
  have hook: "emits (\<lambda>x. \<not> is_read x) (ensureHook E)"
    unfolding ensureHook_def by (intro emits_rules ops)
  have phases: "emits (\<lambda>x. \<not> is_read x) (runPhases E r)"
    unfolding runPhases_def ensureObservedAt_def etcdPhase_def ensureEtcdRemoved_def concludeEtcd_def
      resetPhase_def concludeReset_def stampPhase_def release_def
    by (intro emits_rules ops)
  show "emits (\<lambda>x. \<not> is_read x) (reconcileNormal E r)"
    unfolding reconcileNormal_def by (intro emits_rules ops hook)
  show "emits (\<lambda>x. \<not> is_read x) (reconcileDeleting E r)"
    unfolding reconcileDeleting_def lateStamp_def by (intro emits_rules ops hook phases)
qed

lemma reads_own_key: "list_all (\<lambda>x. \<forall>k ans. x = OGetMachine k ans \<longrightarrow> k = req) (reconcile_trace E r req h)"
proof (rule reconcile_rule, rule wp_ReconcileI)
  have rest: "\<forall>new. hist t = h @ new \<longrightarrow> list_all (\<lambda>x. \<forall>k ans. x = OGetMachine k ans \<longrightarrow> k = req) new"
    if "emits_rel (\<lambda>x. \<not> is_read x) (fetched (start h) req m) t" for m t
    using that by (auto simp: emits_rel_def list_all_iff dest!: bspec)
  show "wp (reconcileNormal E r)
      (\<lambda>res t. \<forall>new. hist t = h @ new \<longrightarrow> list_all (\<lambda>x. \<forall>k ans. x = OGetMachine k ans \<longrightarrow> k = req) new)
      (fetched (start h) req m)" for m
    by (rule wp_mono [OF obeys_wp [OF no_read_ops(1)] rest])
  show "wp (reconcileDeleting E r)
      (\<lambda>res t. \<forall>new. hist t = h @ new \<longrightarrow> list_all (\<lambda>x. \<forall>k ans. x = OGetMachine k ans \<longrightarrow> k = req) new)
      (fetched (start h) req m)" for m
    by (rule wp_mono [OF obeys_wp [OF no_read_ops(2)] rest])
qed auto

lemma trace_justified: "justified (release_justified E) (reconcile_trace E r req [])"
  using justifies_Reconcile [of E r req] hist_reconcile [of E r req "[]"]
  by (auto simp: obeys_def just_rel_def dest!: spec [of _ "start []"])

text \<open>Reads are honest when they return the Machine asked for.\<close>

definition honest :: "history \<Rightarrow> bool" where
  "honest h = (\<forall>k m. OGetMachine k (Inr m) \<in> set h \<longrightarrow> ObjectKeyFromObject m = k)"

lemma patches_own_key:
  assumes "honest (reconcile_trace E r req [])" and "x \<in> set (reconcile_trace E r req [])" and "touches key x"
  shows "key = req"
proof -
  have "(\<forall>m. held h = Some m \<longrightarrow> ObjectKeyFromObject m = req) \<and> (\<forall>x \<in> set h. touches key x \<longrightarrow> key = req)"
    if "prefix h (reconcile_trace E r req [])" for h
    using that
  proof (induction h rule: rev_induct)
    case Nil
    then show ?case by (simp add: held_def)
  next
    case (snoc x h)
    then obtain post where tr: "reconcile_trace E r req [] = h @ x # post" by (auto simp: prefix_def)
    then have IH: "\<And>m. held h = Some m \<Longrightarrow> ObjectKeyFromObject m = req"
      "\<forall>x \<in> set h. touches key x \<longrightarrow> key = req" using snoc.IH by (auto simp: prefix_def)
    have read: "k = req" "ans = Inr m \<Longrightarrow> ObjectKeyFromObject m = req" if "x = OGetMachine k ans" for k ans m
      using reads_own_key [of req E r "[]"] assms(1) that by (auto simp: tr honest_def)
    have patch: "ObjectKeyFromObject a = req" if "x = OPatch b a ans" for b a ans
      using justifiedD [OF trace_justified tr] that IH(1) [of b] by (auto simp: same_but_annotations_facts)
    have "(\<forall>m. sees x (held h) = Some m \<longrightarrow> ObjectKeyFromObject m = req) \<and> (touches key x \<longrightarrow> key = req)"
    proof (cases x)
      case (OGetMachine k ans)
      with IH(1) read [OF OGetMachine] show ?thesis by (cases ans) auto
    next
      case (OPatch b a ans)
      with IH(1) patch [OF OPatch] show ?thesis by (cases ans) auto
    qed (use IH(1) in auto)
    with IH(2) show ?case by auto
  qed
  from this [of "reconcile_trace E r req []"] assms(2,3) show ?thesis by auto
qed

section \<open>The history of one Machine within the whole\<close>

lemma of_key_simps [simp]:
  "of_key key [] = []" "of_key key (e # g) = (if fst e = key then snd e # of_key key g else of_key key g)"
  by (simp_all add: of_key_def)

lemma of_key_split:
  "of_key key g = pre @ x # post \<Longrightarrow> \<exists>g1 g2. g = g1 @ (key, x) # g2 \<and> of_key key g1 = pre"
proof (induction g arbitrary: pre)
  case (Cons e g)
  show ?case
  proof (cases "fst e = key")
    case True
    show ?thesis
    proof (cases pre)
      case Nil
      with Cons.prems True have "e # g = [] @ (key, x) # g \<and> of_key key [] = pre" by (cases e) auto
      then show ?thesis by blast
    next
      case (Cons y pre')
      with Cons.prems True obtain g1 g2 where "g = g1 @ (key, x) # g2" "of_key key g1 = pre'" "y = snd e"
        using Cons.IH [of pre'] by auto
      with True Cons have "e # g = (e # g1) @ (key, x) # g2 \<and> of_key key (e # g1) = pre" by simp
      then show ?thesis by blast
    qed
  next
    case False
    with Cons.prems obtain g1 g2 where "g = g1 @ (key, x) # g2" "of_key key g1 = pre"
      using Cons.IH [of pre] by auto
    with False have "e # g = (e # g1) @ (key, x) # g2 \<and> of_key key (e # g1) = pre" by simp
    then show ?thesis by blast
  qed
qed simp

definition foreign_untouched :: "ObjectKey \<Rightarrow> (ObjectKey \<times> obs) list \<Rightarrow> bool" where
  "foreign_untouched key g = (\<forall>(k, x) \<in> set g. touches key x \<longrightarrow> k = key)"

lemma live_of_key:
  "foreign_untouched key g \<Longrightarrow> live key L (map snd g) = live key L (of_key key g) \<and>
     list_ex (shows_deletion key) (map snd g) = list_ex (shows_deletion key) (of_key key g)"
  by (induction g arbitrary: L) (auto simp: foreign_untouched_def live_def untouched)

lemma stored_of_key: "foreign_untouched key g \<Longrightarrow> stored E key d L (map snd g) = stored E key d L (of_key key g)"
  by (simp add: stored_def live_of_key)

lemma cached_of_key:
  assumes "foreign_untouched key g" and "justified (cached key L) (map snd g)"
  shows "justified (cached key L) (of_key key g)"
  unfolding justified_def
proof (intro allI impI)
  fix pre x post
  assume "of_key key g = pre @ x # post"
  then obtain g1 g2 where g: "g = g1 @ (key, x) # g2" "of_key key g1 = pre"
    using of_key_split by blast
  have "cached key L (map snd g1) x"
    using assms(2) by (simp add: g(1))
  moreover have "\<exists>h \<in> set (prefixes pre). live key L h = live key L h'"
    if "h' \<in> set (prefixes (map snd g1))" for h'
  proof -
    from that obtain rest where "map snd g1 = h' @ rest" by (auto simp: prefix_def)
    then obtain g3 g4 where g1: "g1 = g3 @ g4" "h' = map snd g3"
      by (auto simp: map_eq_append_conv)
    have "live key L (of_key key g3) = live key L h'"
      using live_of_key [of key g3 L] assms(1) by (simp add: g(1) g1 foreign_untouched_def)
    moreover have "pre = of_key key g3 @ of_key key g4"
      using g(2) by (simp add: g1(1) of_key_def)
    ultimately show ?thesis by auto
  qed
  ultimately show "cached key L pre x"
    by (cases "(key, L, pre, x)" rule: cached.cases) (simp_all del: in_set_prefixes, metis)
qed

text \<open>A version seen makes what was held before it irrelevant.\<close>

lemma fold_sees_indep: "fold sees h = (\<lambda>m. m) \<or> (\<exists>m'. fold sees h = (\<lambda>_. m'))"
proof (induction h)
  case (Cons x h)
  have "sees x = (\<lambda>m. m) \<or> (\<exists>m'. sees x = (\<lambda>_. m'))"
    by (cases "(x, None :: Machine option)" rule: sees.cases) (auto simp: fun_eq_iff)
  with Cons.IH show ?case by (auto simp: fun_eq_iff)
qed (auto simp: fun_eq_iff)

lemma held_later: "held pre = Some m \<Longrightarrow> held (g @ pre) = Some m"
  using fold_sees_indep [of pre] by (auto simp: held_def)

lemma patch_advances_later: "patch_advances E key pre x \<Longrightarrow> patch_advances E key (g @ pre) x"
  by (cases "(E, key, pre, x)" rule: patch_advances.cases) (auto simp del: held_append dest: held_later)

lemma patch_advances_concat:
  assumes "\<And>h. h \<in> set hs \<Longrightarrow> justified (patch_advances E key) h"
  shows "justified (patch_advances E key) (concat hs)"
  using assms
proof (induction hs rule: rev_induct)
  case (snoc h hs)
  have "justified (patch_advances E key) h" by (rule snoc.prems) simp
  then have "just_from (patch_advances E key) (concat hs) h"
    unfolding just_from_iff by (auto simp: justified_def intro: patch_advances_later)
  with snoc show ?case by simp
qed simp

lemma key_history_advances:
  assumes "\<forall>(k, E') \<in> set tasks. sane_clock E' \<and> lenient E' = lenient E"
  shows "justified (patch_advances E key) (key_history r tasks key)"
  unfolding key_history_def
  by (rule patch_advances_concat)
     (use assms in \<open>auto intro!: justified_patch_advances [OF _ _ trace_justified]\<close>)

text \<open>In an interleaving with honest reads, no reconcile touches the Machine of another.\<close>

lemma concurrent_untouched:
  assumes "concurrent_run r tasks g" and "honest (map snd g)"
  shows "foreign_untouched key g"
  unfolding foreign_untouched_def
proof (clarify)
  fix k x
  assume "(k, x) \<in> set g" and touch: "touches key x"
  then have "x \<in> set (of_key k g)" by (force simp: of_key_def)
  then have "x \<in> set (key_history r tasks k)" using assms(1) by (simp add: concurrent_run_def)
  then obtain E where E: "(k, E) \<in> set tasks" "x \<in> set (reconcile_trace E r k [])"
    by (auto simp: key_history_def)
  have "set (reconcile_trace E r k []) \<subseteq> set (of_key k g)"
    using E(1) assms(1) by (auto simp: concurrent_run_def key_history_def)
  moreover have "set (of_key k g) \<subseteq> set (map snd g)" by (auto simp: of_key_def)
  ultimately have "honest (reconcile_trace E r k [])"
    using assms(2) unfolding honest_def by blast
  from patches_own_key [OF this E(2) touch] show "k = key" by simp
qed

lemma cached_honest: "justified (cached key L) h \<Longrightarrow> honest h"
  unfolding honest_def by (auto dest!: justified_mem)

text \<open>The records of each Machine follow the lifecycle, however stale the reads.\<close>

lemma concurrent_simulates:
  assumes "concurrent_run r tasks g"
    and "\<forall>(k, E') \<in> set tasks. sane_clock E' \<and> lenient E' = lenient E"
    and "justified (cached key L) (map snd g)"
  shows "foreign_untouched key g \<and> justified (patch_advances E key) (of_key key g) \<and>
     justified (cached key L) (of_key key g)"
proof -
  have own: "foreign_untouched key g"
    by (rule concurrent_untouched [OF assms(1) cached_honest [OF assms(3)]])
  moreover have "justified (patch_advances E key) (of_key key g)"
    using key_history_advances [OF assms(2)] assms(1) by (simp add: concurrent_run_def)
  ultimately show ?thesis using cached_of_key [OF own assms(3)] by blast
qed

text \<open>The state after a part of the run.\<close>

lemma simulates_part:
  assumes "foreign_untouched key g \<and> justified (patch_advances E key) (of_key key g) \<and>
       justified (cached key L) (of_key key g)"
    and "g = g1 @ g2"
  shows "\<exists>S. simulates E key d L (of_key key g1) S \<and> stored E key d L (map snd g1) = stored E key d L (of_key key g1)"
proof -
  have "foreign_untouched key g1" "of_key key g = of_key key g1 @ of_key key g2"
    using assms by (simp_all add: foreign_untouched_def of_key_def)
  with assms(1) show ?thesis
    by (simp add: stored_of_key simulates_history)
qed

text \<open>Every patch advances a version that was seen, and takes the hook off only where the API server has the conclusions.\<close>

lemma concurrent_patch:
  assumes "foreign_untouched key g \<and> justified (patch_advances E key) (of_key key g) \<and>
       justified (cached key L) (of_key key g)"
    and "g = g1 @ (k, OPatch before after ans) # g2" and "ObjectKeyFromObject after = key"
    and "p = stored E key d L (map snd g1)"
  shows "advances (IsControlPlane before) (view E before) (view E after) \<and>
     (HasHook before \<and> \<not> HasHook after \<longrightarrow>
        lc_deleting p \<and> lc_reset p \<noteq> None \<and> (IsControlPlane before \<longrightarrow> lc_etcd p \<noteq> None))"
proof -
  have "k = key" using assms(1-3) by (auto simp: foreign_untouched_def)
  then have split: "of_key key g = of_key key g1 @ OPatch before after ans # of_key key g2"
    by (simp add: assms(2) of_key_def)
  have "patch_advances E key (of_key key g1) (OPatch before after ans)"
    using justifiedD [OF _ split] assms(1) by blast
  with assms(3) have x: "held (of_key key g1) = Some before" "same_but_annotations before after"
    and adv: "advances (IsControlPlane before) (view E before) (view E after)" by auto
  obtain S where S: "simulates E key d L (of_key key g1) S" "p = stored E key d L (of_key key g1)"
    using simulates_part [OF assms(1,2)] assms(4) by metis
  have "view E before \<in> S"
    using S(1) x assms(3) by (simp add: simulates_def same_but_annotations_facts)
  from upheld_release [OF simulates_upheld [OF S(1)] this adv] adv show ?thesis
    by (simp add: S(2) view_def)
qed

text \<open>What the API server once had as concluded stays concluded.\<close>

lemma concurrent_upheld:
  assumes "foreign_untouched key g \<and> justified (patch_advances E key) (of_key key g) \<and>
       justified (cached key L) (of_key key g)"
    and "g = g1 @ g2"
  shows "(lc_reset (stored E key d L (map snd g1)) \<noteq> None \<longrightarrow> lc_reset (stored E key d L (map snd g)) \<noteq> None) \<and>
     (lc_etcd (stored E key d L (map snd g1)) \<noteq> None \<longrightarrow> lc_etcd (stored E key d L (map snd g)) \<noteq> None)"
proof -
  obtain S where S: "simulates E key d L (of_key key g) S"
    and p: "stored E key d L (map snd g) = stored E key d L (of_key key g)"
    using simulates_part [OF assms(1), of g "[]"] by auto
  have "of_key key g1 \<in> set (prefixes (of_key key g))"
    using assms(2) by (simp add: of_key_def)
  then obtain d' where "records_of E d' (live key L (of_key key g1)) \<in> S"
    using S unfolding simulates_def by blast
  moreover have "stored E key d L (map snd g1) = stored E key d L (of_key key g1)"
    using simulates_part [OF assms] by auto
  ultimately show ?thesis
    using simulates_upheld [OF S] unfolding p by (auto simp: upheld_def stored_def records_of_def)
qed

section \<open>One reconcile\<close>

text \<open>
  Within one reconcile the version in hand is the one read, advanced by each patch: the lifecycle bounds its patches whatever
  the API server holds by then.
\<close>

definition patches :: "history \<Rightarrow> history" where
  "patches h = filter is_patch h"

definition in_step :: "env \<Rightarrow> Machine \<Rightarrow> history \<Rightarrow> bool" where
  "in_step E m h =
     (\<exists>q. (advances (IsControlPlane m) ^^ length (patches h)) (view E m) q \<and>
        (\<forall>m'. held h = Some m' \<longrightarrow> same_but_annotations m m' \<and> view E m' = q))"

lemma in_step_quiet: "held h' = held h \<Longrightarrow> patches h' = patches h \<Longrightarrow> in_step E m h \<Longrightarrow> in_step E m h'"
  by (simp add: in_step_def)

lemma in_step_trace:
  assumes "sane_clock E" and "justified (release_justified E) (OGetMachine k (Inr m) # h)"
    and "list_all (\<lambda>x. \<not> is_read x) h"
  shows "in_step E m (OGetMachine k (Inr m) # h)"
  using assms(2,3)
proof (induction h rule: rev_induct)
  case Nil
  then show ?case by (simp add: in_step_def held_def patches_def same_but_annotations_def)
next
  case (snoc x h)
  let ?h = "OGetMachine k (Inr m) # h"
  have IH: "in_step E m ?h" and J: "release_justified E ?h x" and "\<not> is_read x"
    using snoc by (simp_all flip: append_Cons)
  have held: "held (?h @ [x]) = sees x (held ?h)" by (simp add: held_def)
  have "in_step E m (?h @ [x])"
  proof (cases "is_patch x")
    case True
    then obtain b a ans where x: "x = OPatch b a ans" by (cases x) auto
    with J assms(1) have b: "held ?h = Some b" "same_but_annotations b a"
      and adv: "advances (IsControlPlane b) (view E b) (view E a)" by (auto simp: protocol_step_def)
    from IH b(1) have same: "same_but_annotations m b"
      and run: "(advances (IsControlPlane m) ^^ length (patches ?h)) (view E m) (view E b)"
      by (auto simp: in_step_def)
    from run adv same have "(advances (IsControlPlane m) ^^ Suc (length (patches ?h))) (view E m) (view E a)"
      by (auto simp: same_but_annotations_facts)
    then show ?thesis
      using same_but_annotations_trans [OF same b(2)] held x
      by (cases ans) (auto simp: in_step_def patches_def)
  next
    case False
    with \<open>\<not> is_read x\<close> held IH show ?thesis
      by (intro in_step_quiet [OF _ _ IH]) (cases x; simp add: patches_def)+
  qed
  then show ?case by simp
qed

lemma reconcile_reads_once:
  assumes "get_machine E [] req = Inr m"
  shows "\<exists>h. reconcile_trace E r req [] = OGetMachine req (Inr m) # h \<and> list_all (\<lambda>x. \<not> is_read x) h"
proof -
  let ?P = "\<lambda>new. \<exists>h. new = OGetMachine req (Inr m) # h \<and> list_all (\<lambda>x. \<not> is_read x) h"
  have rest: "\<forall>new. hist t = [] @ new \<longrightarrow> ?P new"
    if "emits_rel (\<lambda>x. \<not> is_read x) (fetched (start []) req m) t" for t
    using that by (auto simp: emits_rel_def)
  show ?thesis
  proof (rule reconcile_rule, rule wp_ReconcileI)
    fix m' assume "get_machine E (hist (start [])) req = Inr m'"
    with assms have m: "m' = m" by simp
    show "wp (reconcileNormal E r) (\<lambda>res t. \<forall>new. hist t = [] @ new \<longrightarrow> ?P new) (fetched (start []) req m')"
      unfolding m by (rule wp_mono [OF obeys_wp [OF no_read_ops(1)] rest])
    show "wp (reconcileDeleting E r) (\<lambda>res t. \<forall>new. hist t = [] @ new \<longrightarrow> ?P new) (fetched (start []) req m')"
      unfolding m by (rule wp_mono [OF obeys_wp [OF no_read_ops(2)] rest])
  qed (use assms in auto)
qed

text \<open>The bounds.\<close>

lemma advances_runs_bounded: "(advances cp ^^ n) p q \<Longrightarrow> n + steps_ahead q \<le> steps_ahead p"
  by (rule teardown.runs_bounded [of n cp p q]) (auto elim: relpowp_mono [rotated] intro: lifecycle_step.Advance)

lemma advances_ends: "advances cp p q \<Longrightarrow> \<not> released p"
  by (erule advancesE) (auto simp: released_def)

lemma patches_bounded:
  assumes "(advances cp ^^ n) p q"
  shows "n \<le> 5" "\<not> lc_deleting p \<Longrightarrow> n \<le> 1" "released p \<Longrightarrow> n = 0"
proof -
  have del: "lc_deleting q = lc_deleting p"
    using assms by (induction n arbitrary: q) (auto dest: advances_keeps_deleting)
  then show "n \<le> 5"
    using advances_runs_bounded [OF assms] steps_ahead_le [of p] by (cases "lc_deleting p") (auto simp: steps_ahead_def [of q])
  show "n = 0" if "released p"
    using assms that by (cases n) (auto dest: advances_ends elim: relpowp_E2)
  show "n \<le> 1" if "\<not> lc_deleting p"
  proof (cases n)
    case (Suc k)
    with assms obtain p1 where "advances cp p p1" "(advances cp ^^ k) p1 q" by (metis relpowp_Suc_D2)
    moreover from this that have "\<not> advances cp p1 p2" for p2
      by (auto elim!: advances.cases)
    ultimately show ?thesis using Suc by (cases k) (auto elim: relpowp_E2)
  qed simp
qed

lemma version_cases: "is_version x \<Longrightarrow> is_read x \<or> is_patch x"
  by (cases x) simp_all

lemma refused_is_last:
  assumes "justified (release_justified E) (g @ OPatch b a (Some e) # h)" and "list_all (\<lambda>x. \<not> is_read x) h"
  shows "\<not> list_ex is_patch h"
proof
  assume "list_ex is_patch h"
  then obtain h1 x h2 where h: "h = h1 @ x # h2" "is_patch x" "\<forall>y \<in> set h1. \<not> is_patch y"
    using split_list_first_prop [of h is_patch] by (auto simp: list_ex_iff)
  then have "list_all (\<lambda>y. \<not> is_version y) h1"
    using assms(2) by (auto simp: list_all_iff dest!: version_cases)
  then have "held (g @ OPatch b a (Some e) # h1) = None"
    by (simp add: held_def fold_sees_other)
  moreover have "release_justified E (g @ OPatch b a (Some e) # h1) x"
    by (rule justifiedD [OF assms(1), where post = h2]) (simp add: h(1))
  ultimately show False using h(2) by (cases x) simp_all
qed

end
