(* ===== verification/Ledger.thy ===== *)
theory Ledger
  imports Go_Prelude "HOL-Library.Multiset"
begin

text \<open>
  Book-keeping over a history: entries that incur something (an increment that is due) and
  entries that settle it. A program that keeps the books balanced settles all it incurs.
\<close>

definition total :: "('o \<Rightarrow> 'a multiset) \<Rightarrow> 'o list \<Rightarrow> 'a multiset" where
  "total f h = sum_list (map f h)"

lemma total_simps [simp]:
  "total f [] = {#}" "total f (x # h) = f x + total f h" "total f (h @ h') = total f h + total f h'"
  by (simp_all add: total_def)

text \<open>\<open>owes D C X s t\<close>: between \<open>s\<close> and \<open>t\<close> the items \<open>X\<close> were incurred and not settled.\<close>

definition owes :: "('o \<Rightarrow> 'a multiset) \<Rightarrow> ('o \<Rightarrow> 'a multiset) \<Rightarrow> 'a multiset \<Rightarrow>
    ('o, 'r) world_scheme \<Rightarrow> ('o, 'r) world_scheme \<Rightarrow> bool" where
  "owes D C X s t = (total D (hist t) + total C (hist s) = total D (hist s) + total C (hist t) + X)"

lemma owes_trans: "owes D C X s t \<Longrightarrow> owes D C Y t u \<Longrightarrow> owes D C (X + Y) s u"
proof -
  assume "owes D C X s t" and "owes D C Y t u"
  then have "(total D (hist t) + total C (hist s)) + (total D (hist u) + total C (hist t)) =
      (total D (hist s) + total C (hist t) + X) + (total D (hist t) + total C (hist u) + Y)"
    by (simp add: owes_def)
  then show ?thesis by (simp add: owes_def ac_simps)
qed

lemma owes_refl: "owes D C {#} s s"
  by (simp add: owes_def)

lemma effect_owes: "effect (owes D C {#})"
  using owes_trans [of D C "{#}" _ _ "{#}"] by unfold_locales (auto simp: owes_refl)

lemma owes_after: "obeys (owes D C {#}) p \<Longrightarrow> owes D C X s t \<Longrightarrow> wp p (\<lambda>_. owes D C X s) t"
  by (rule wpI) (auto dest!: obeysD dest: owes_trans)

text \<open>A program whose entries neither incur nor settle.\<close>

lemma settled_emits:
  fixes p :: "(('o, 'r) world_scheme, 'b) state"
  assumes "emits (\<lambda>x. D x = {#} \<and> C x = {#}) p"
  shows "obeys (owes D C {#}) p"
proof -
  have "total D new = {#} \<and> total C new = {#}" if "list_all (\<lambda>x. D x = {#} \<and> C x = {#}) new" for new
    using that by (induction new) auto
  then have "owes D C {#} s t" if "emits_rel (\<lambda>x. D x = {#} \<and> C x = {#}) s t" for s t :: "('o, 'r) world_scheme"
    using that by (auto simp: owes_def emits_rel_def)
  with assms show ?thesis by (simp add: obeys_def)
qed

end
