(* ===== verification/Teardown_Metrics.thy ===== *)
theory Teardown_Metrics
  imports Reconciler_Guards Ledger
begin

text \<open>
  \<open>metrics.go\<close>: the instruments of the controller, what a scrape shows after a history of increments, and that
  the counters agree with what was recorded on Machines.
\<close>

section \<open>Instruments\<close>

fun metric_name :: "metric \<Rightarrow> string" where
  "metric_name machinesCompleted = ''teardown_machines_total''"
| "metric_name (etcdOutcomes outcome) = ''teardown_etcd_total''"
| "metric_name (resetOutcomes outcome) = ''teardown_reset_total''"
| "metric_name (resetDuration d) = ''teardown_reset_duration_seconds''"

text \<open>What \<open>init\<close> registers; the registry refuses (with a panic) a name it has already.\<close>

definition registered :: "string list" where
  "registered =
     [metric_name machinesCompleted, metric_name (etcdOutcomes ''''), metric_name (resetOutcomes ''''), metric_name (resetDuration 0)]"

lemma registered_distinct: "distinct registered"
  by (simp add: registered_def)

lemma metric_registered: "metric_name k \<in> set registered"
  by (cases k) (simp_all add: registered_def)

text \<open>What a scrape shows: counters by outcome, and the observed durations.\<close>

record metrics =
  machines_total :: nat
  etcd_total :: "string \<Rightarrow> nat"
  reset_total :: "string \<Rightarrow> nat"
  reset_durations :: "duration list"

fun instrument :: "obs \<Rightarrow> metrics \<Rightarrow> metrics" where
  "instrument (OMetric machinesCompleted) ms = ms\<lparr>machines_total := Suc (machines_total ms)\<rparr>"
| "instrument (OMetric (etcdOutcomes v)) ms = ms\<lparr>etcd_total := (etcd_total ms)(v := Suc (etcd_total ms v))\<rparr>"
| "instrument (OMetric (resetOutcomes v)) ms = ms\<lparr>reset_total := (reset_total ms)(v := Suc (reset_total ms v))\<rparr>"
| "instrument (OMetric (resetDuration d)) ms = ms\<lparr>reset_durations := reset_durations ms @ [d]\<rparr>"
| "instrument _ ms = ms"

definition scrape :: "history \<Rightarrow> metrics" where
  "scrape h = fold instrument h \<lparr>machines_total = 0, etcd_total = (\<lambda>_. 0), reset_total = (\<lambda>_. 0), reset_durations = []\<rparr>"

section \<open>Increments and the patches they report\<close>

fun reported :: "obs \<Rightarrow> metric multiset" where
  "reported (OMetric (resetDuration d)) = {#}"
| "reported (OMetric k) = {#k#}"
| "reported _ = {#}"

text \<open>The outcome a new value of an annotation stands for.\<close>

definition newly :: "(string \<Rightarrow> metric) \<Rightarrow> string \<Rightarrow> Machine \<Rightarrow> Machine \<Rightarrow> metric multiset" where
  "newly mk k before after =
     (case map_of (m_annotations after) k of
        Some v \<Rightarrow> if map_of (m_annotations before) k = Some v then {#} else {#mk v#}
      | None \<Rightarrow> {#})"

fun to_report :: "obs \<Rightarrow> metric multiset" where
  "to_report (OPatch before after None) =
     newly etcdOutcomes EtcdAnnotation before after + newly resetOutcomes ResetAnnotation before after +
     (if HasHook before \<and> \<not> HasHook after then {#machinesCompleted#} else {#})"
| "to_report _ = {#}"

abbreviation unreported :: "metric multiset \<Rightarrow> rstate \<Rightarrow> rstate \<Rightarrow> bool" where
  "unreported \<equiv> owes to_report reported"

interpretation metered: effect "unreported {#}"
  by (rule effect_owes)

abbreviation metered :: "'a rprog \<Rightarrow> bool" where
  "metered \<equiv> obeys (unreported {#})"

text \<open>The patches a counter is about, read off the history.\<close>

fun releases_hook :: "obs \<Rightarrow> bool" where
  "releases_hook (OPatch before after None) = (HasHook before \<and> \<not> HasHook after)"
| "releases_hook _ = False"

fun concludes :: "string \<Rightarrow> string \<Rightarrow> obs \<Rightarrow> bool" where
  "concludes k v (OPatch before after None) =
     (map_of (m_annotations before) k \<noteq> Some v \<and> map_of (m_annotations after) k = Some v)"
| "concludes k v _ = False"

lemma count_to_report:
  "count (total to_report h) machinesCompleted = length (filter releases_hook h)"
  "count (total to_report h) (etcdOutcomes v) = length (filter (concludes EtcdAnnotation v) h)"
  "count (total to_report h) (resetOutcomes v) = length (filter (concludes ResetAnnotation v) h)"
proof -
  have "count (to_report x) machinesCompleted = (if releases_hook x then 1 else 0) \<and>
      count (to_report x) (etcdOutcomes v) = (if concludes EtcdAnnotation v x then 1 else 0) \<and>
      count (to_report x) (resetOutcomes v) = (if concludes ResetAnnotation v x then 1 else 0)" for x
    by (cases x rule: to_report.cases) (auto simp: newly_def split: option.splits)
  then show "count (total to_report h) machinesCompleted = length (filter releases_hook h)"
    "count (total to_report h) (etcdOutcomes v) = length (filter (concludes EtcdAnnotation v) h)"
    "count (total to_report h) (resetOutcomes v) = length (filter (concludes ResetAnnotation v) h)"
    by (induction h) simp_all
qed

text \<open>The counters are the increments counted.\<close>

lemma scrape_reported:
  "machines_total (scrape h) = count (total reported h) machinesCompleted"
  "etcd_total (scrape h) v = count (total reported h) (etcdOutcomes v)"
  "reset_total (scrape h) v = count (total reported h) (resetOutcomes v)"
proof -
  have "machines_total (fold instrument h ms) = machines_total ms + count (total reported h) machinesCompleted \<and>
      etcd_total (fold instrument h ms) v = etcd_total ms v + count (total reported h) (etcdOutcomes v) \<and>
      reset_total (fold instrument h ms) v = reset_total ms v + count (total reported h) (resetOutcomes v)" for ms
  proof (induction h arbitrary: ms)
    case (Cons x h)
    have "machines_total (instrument x ms) = machines_total ms + count (reported x) machinesCompleted \<and>
        etcd_total (instrument x ms) v = etcd_total ms v + count (reported x) (etcdOutcomes v) \<and>
        reset_total (instrument x ms) v = reset_total ms v + count (reported x) (resetOutcomes v)"
      by (cases "(x, ms)" rule: instrument.cases) auto
    with Cons.IH [of "instrument x ms"] show ?case by simp
  qed simp
  then show "machines_total (scrape h) = count (total reported h) machinesCompleted"
    "etcd_total (scrape h) v = count (total reported h) (etcdOutcomes v)"
    "reset_total (scrape h) v = count (total reported h) (resetOutcomes v)"
    by (simp_all add: scrape_def)
qed

section \<open>Every function of the reconciler reports what it records\<close>

fun is_counter :: "obs \<Rightarrow> bool" where
  "is_counter (OMetric (resetDuration d)) = False"
| "is_counter (OMetric k) = True"
| "is_counter (OPatch b a None) = True"
| "is_counter _ = False"

lemma not_counter: "\<not> is_counter x \<Longrightarrow> to_report x = {#} \<and> reported x = {#}"
  by (cases x rule: is_counter.cases) (auto split: option.splits elim: to_report.elims)

lemma metered_quiet: "emits (\<lambda>x. \<not> is_counter x) p \<Longrightarrow> metered p"
  by (rule settled_emits, erule emits_mono) (rule not_counter)

lemma read_not_counter: "is_address_read x \<Longrightarrow> \<not> is_counter x" "is_secret_read x \<Longrightarrow> \<not> is_counter x"
  by (cases x; simp)+

lemma counter_probePeer: "emits (\<lambda>x. \<not> is_counter x) (probePeer E r peer cfg)"
  unfolding probePeer_def talos_wrappers by (intro go_effect) (simp_all add: read_not_counter)

lemma counter_probePeers: "emits (\<lambda>x. \<not> is_counter x) (probePeers E r cfg peers)"
  by (induction peers) (simp_all, (intro go_effect counter_probePeer | simp)+)

lemma counter_ops:
  "emits (\<lambda>x. \<not> is_counter x) (event ty reason)" "emits (\<lambda>x. \<not> is_counter x) (now E)"
  "emits (\<lambda>x. \<not> is_counter x) (clusterDeleting E)" "emits (\<lambda>x. \<not> is_counter x) (serializeControlPlane E)"
  "emits (\<lambda>x. \<not> is_counter x) (ensureCredentials E r)"
  "emits (\<lambda>x. \<not> is_counter x) (tryEtcdRemoval E r)" "emits (\<lambda>x. \<not> is_counter x) (tryReset E r)"
proof -
  have list: "emits (\<lambda>x. \<not> is_counter x) (listControlPlaneMachines E m)" for m
    unfolding listControlPlaneMachines_def by (intro go_effect) simp_all
  have leave: "emits (\<lambda>x. \<not> is_counter x) (leaveViaVictim E r cfg)" for cfg
    unfolding leaveViaVictim_def talos_wrappers by (intro go_effect) (simp_all add: read_not_counter)
  have find: "emits (\<lambda>x. \<not> is_counter x) (findHealthyPeer E r cfg)" for cfg
    unfolding findHealthyPeer_def by (intro go_effect list counter_probePeers)
  show "emits (\<lambda>x. \<not> is_counter x) (tryEtcdRemoval E r)"
    unfolding tryEtcdRemoval_def talos_wrappers by (intro go_effect find leave) (simp_all add: read_not_counter)
  show "emits (\<lambda>x. \<not> is_counter x) (tryReset E r)"
    unfolding tryReset_def talos_wrappers by (intro go_effect) (simp_all add: read_not_counter)
  show "emits (\<lambda>x. \<not> is_counter x) (serializeControlPlane E)"
    unfolding serializeControlPlane_def by (intro go_effect list)
  show "emits (\<lambda>x. \<not> is_counter x) (ensureCredentials E r)"
    unfolding ensureCredentials_def event_def by (intro go_effect) (auto elim: is_secret_io.elims)
qed (unfold event_def now_def clusterDeleting_def, (intro go_effect; simp)+)

lemmas metered_ops = counter_ops [THEN metered_quiet] metered_quiet [OF emits_theMachine] metered_quiet [OF emits_setMachine]

text \<open>A patch owes the report of what it records, if it is accepted.\<close>

lemma metered_patch:
  "wp (patchAnnotations E f)
     (\<lambda>res t. unreported (if res = Inr () then (case f (m_annotations (machine s)) of None \<Rightarrow> {#}
        | Some a \<Rightarrow> to_report (OPatch (machine s) ((machine s)\<lparr>m_annotations := a\<rparr>) None)) else {#}) s t) s"
  by (auto simp: patchAnnotations_def go_wp Let_def owes_def split: option.split)

lemma metered_ensureHook: "metered (ensureHook E)"
proof (rule obeysI)
  fix s :: rstate
  have "wp (patchAnnotations E (\<lambda>ann. Some (mdel_all (legacyHookKeys (machine s)) (mput HookAnnotation HookValue ann))))
      (\<lambda>_. unreported {#} s) s"
    by (rule wp_mono [OF metered_patch]) (auto simp: newly_def split: if_splits option.splits)
  then show "wp (ensureHook E) (\<lambda>_. unreported {#} s) s"
    unfolding ensureHook_def
    by (auto simp: go_wp event_def owes_refl split: sum.split elim!: wp_mono) (simp_all add: owes_def)
qed

lemma metered_ensureObservedAt: "metered (ensureObservedAt E)"
proof -
  have "metered (patchAnnotations E (\<lambda>ann. Some (mput ObservedAtAnnotation v ann)))" for v
    by (rule obeysI, rule wp_mono [OF metered_patch])
       (auto simp: newly_def HasHook_def split: if_splits option.splits)
  then show ?thesis
    unfolding ensureObservedAt_def by (intro metered.eff_rules metered_ops)
qed

text \<open>A conclusion is stamped and reported.\<close>

lemma unreported_stamp:
  assumes "map_of (m_annotations (machine s)) k = None" and "v \<noteq> ''''"
    and "(k, mk) \<in> {(EtcdAnnotation, etcdOutcomes), (ResetAnnotation, resetOutcomes)}"
  shows "wp (stampPhase E k v) (\<lambda>res. unreported (if res = Inr () then {#mk v#} else {#}) s) s"
  unfolding stampPhase_def
  by (rule wp_mono [OF metered_patch])
     (use assms in \<open>auto simp: newly_def mget_def HasHook_def split: if_splits option.splits\<close>)

lemma metered_concludeEtcd:
  assumes "map_of (m_annotations (machine s)) EtcdAnnotation = None" and "v \<noteq> ''''"
  shows "wp (concludeEtcd E v) (\<lambda>_. unreported {#} s) s"
  unfolding concludeEtcd_def recordEtcdOutcome_def event_def wp_bind [of "stampPhase _ _ _"]
  by (rule wp_mono [OF unreported_stamp [OF assms, where mk = etcdOutcomes]])
     (auto simp: go_wp owes_def split: sum.split)

lemma metered_concludeReset:
  assumes "map_of (m_annotations (machine s)) ResetAnnotation = None" and "v \<noteq> ''''"
  shows "wp (concludeReset E v) (\<lambda>_. unreported {#} s) s"
  unfolding concludeReset_def event_def wp_bind [of "stampPhase _ _ _"]
  by (rule wp_mono [OF unreported_stamp [OF assms, where mk = resetOutcomes]])
     (auto simp: go_wp owes_def split: sum.split)

lemma metered_release: "metered (release E)"
proof (rule obeysI)
  fix s :: rstate
  have "wp (patchAnnotations E (\<lambda>ann. Some (mdel_all (legacyHookKeys (machine s)) (mdel HookAnnotation ann))))
      (\<lambda>res. unreported (if res = Inr () then {#machinesCompleted#} else {#}) s) s" if "HasHook (machine s)"
    by (rule wp_mono [OF metered_patch]) (use that in \<open>auto simp: newly_def split: if_splits option.splits\<close>)
  then show "wp (release E) (\<lambda>_. unreported {#} s) s"
    unfolding release_def
    by (auto simp: go_wp event_def owes_refl split: sum.split elim!: wp_mono) (simp_all add: owes_def)
qed

text \<open>The work of a phase, which keeps the Machine, before its conclusion.\<close>

lemma metered_work_then:
  assumes "metered m" and "keeps_machine m" and "yields P m"
    and "\<And>a t. P a \<Longrightarrow> machine t = machine s \<Longrightarrow> wp (f a) (\<lambda>_. unreported {#} t) t"
  shows "wp (State_Monad.bind m f) (\<lambda>_. unreported {#} s) s"
  unfolding wp_bind
proof (rule wp_mono [OF wp_conj [OF wp_conj [OF obeys_wp [OF assms(1)] obeys_wp [OF assms(2)]] yields_wp [OF assms(3)]]],
    elim conjE)
  fix a t
  assume t: "unreported {#} s t" "keep_rel s t" "P a"
  then have "wp (f a) (\<lambda>_. unreported {#} t) t"
    by (intro assms(4)) (simp_all add: keep_rel_def)
  with t(1) show "wp (f a) (\<lambda>_. unreported {#} s) t"
    by (auto elim!: wp_mono intro: metered.trans_eff)
qed

lemma metered_ensureEtcdRemoved:
  assumes "map_of (m_annotations (machine s)) EtcdAnnotation = None"
  shows "wp (ensureEtcdRemoved E r at) (\<lambda>_. unreported {#} s) s"
  unfolding ensureEtcdRemoved_def Let_def
proof (rule metered_work_then [OF metered_ops(6) keep_tryEtcdRemoval outcome_tryEtcdRemoval], goal_cases)
  case (1 res t)
  have conclude: "wp (concludeEtcd E v) (\<lambda>_. unreported {#} t) u"
    if "unreported {#} t u" "machine u = machine t" "v \<noteq> ''''" for u v
    using metered_concludeEtcd [of u v E] that assms 1(2) by (auto elim!: wp_mono intro: metered.trans_eff)
  from 1 show ?case
    by (cases res) (auto simp: go_wp now_def event_def owes_def intro!: conclude)
qed

lemma metered_etcdPhase: "metered (etcdPhase E r at del)"
proof (rule obeysI)
  fix s :: rstate
  have skip: "wp (stampPhase E EtcdAnnotation EtcdSkippedClusterDelete \<bind>
       (\<lambda>res. case res of Inl err \<Rightarrow> ret (Inl err)
          | Inr _ \<Rightarrow> event EventTypeNormal EventEtcdSkippedClusterDelete \<bind>
              (\<lambda>_. emit (OMetric (etcdOutcomes EtcdSkippedClusterDelete)) \<bind> (\<lambda>_. ret (Inr ZeroResult)))))
      (\<lambda>_. unreported {#} s) s" if "map_of (m_annotations (machine s)) EtcdAnnotation = None"
    unfolding event_def wp_bind [of "stampPhase _ _ _"]
    by (rule wp_mono [OF unreported_stamp [OF that, where mk = etcdOutcomes]]) (auto simp: go_wp owes_def split: sum.split)
  have work: "wp (serializeControlPlane E \<bind> (\<lambda>res. case res of Inl err \<Rightarrow> ret (Inl err)
        | Inr result \<Rightarrow> if \<not> IsZero result then ret (Inr result) else ensureEtcdRemoved E r at)) (\<lambda>_. unreported {#} s) s"
    if "map_of (m_annotations (machine s)) EtcdAnnotation = None"
    by (rule metered_work_then [OF metered_ops(4) keep_serializeControlPlane yields_any])
       (use that in \<open>auto simp: wp_return owes_refl split: sum.split intro!: metered_ensureEtcdRemoved\<close>)
  show "wp (etcdPhase E r at del) (\<lambda>_. unreported {#} s) s"
    unfolding etcdPhase_def wp_bind [of theMachine] wp_theMachine wp_if
    using skip work by (auto simp: wp_return owes_refl mhas_def)
qed

lemma metered_resetPhase: "metered (resetPhase E r at)"
proof (rule obeysI)
  fix s :: rstate
  have work: "wp (tryReset E r \<bind> (\<lambda>res. case res of
                Inl err \<Rightarrow> now E \<bind> (\<lambda>t. if \<not> at + ResetTimeout r < t then ret (Inl (ETransient err))
                  else event EventTypeWarning EventResetSkipped \<bind> (\<lambda>_. concludeReset E ResetSkippedTimeout))
              | Inr outcome \<Rightarrow> concludeReset E outcome)) (\<lambda>_. unreported {#} s) s"
    if none: "map_of (m_annotations (machine s)) ResetAnnotation = None"
  proof (rule metered_work_then [OF metered_ops(7) keep_tryReset outcome_tryReset], goal_cases)
    case (1 res t)
    have conclude: "wp (concludeReset E v) (\<lambda>_. unreported {#} t) u"
      if "unreported {#} t u" "machine u = machine t" "v \<noteq> ''''" for u v
      using metered_concludeReset [of u v E] that none 1(2) by (auto elim!: wp_mono intro: metered.trans_eff)
    from 1 show ?case
      by (cases res) (auto simp: go_wp now_def event_def owes_def intro!: conclude)
  qed
  then show "wp (resetPhase E r at) (\<lambda>_. unreported {#} s) s"
    unfolding resetPhase_def Let_def wp_bind [of theMachine] wp_theMachine wp_if
    by (auto simp: wp_return owes_refl mhas_def)
qed

lemma metered_Reconcile: "metered (Reconcile E r req)"
proof -
  have get: "metered (call (OGetMachine req) f)" for f
    by (simp add: obeys_def owes_def)
  show ?thesis
    unfolding Reconcile_def reconcileDeleting_def lateStamp_def reconcileNormal_def runPhases_def
    by (intro metered.eff_rules metered_ops metered_ensureHook metered_ensureObservedAt metered_etcdPhase
        metered_resetPhase metered_release get)
qed

lemma runs_metered: "total to_report (reconcile_runs E r reqs []) = total reported (reconcile_runs E r reqs [])"
proof -
  have "total to_report h = total reported h \<Longrightarrow>
      total to_report (reconcile_runs E r reqs h) = total reported (reconcile_runs E r reqs h)" for h
  proof (induction reqs arbitrary: h)
    case (Cons req reqs)
    have "unreported {#} (start h) (snd (run_state (Reconcile E r req) (start h)))"
      using metered_Reconcile [of E r req] by (simp add: obeys_def)
    with Cons.prems have "total to_report (h @ reconcile_trace E r req h) = total reported (h @ reconcile_trace E r req h)"
      by (simp add: owes_def hist_reconcile)
    then show ?case using Cons.IH by simp
  qed simp
  then show ?thesis by simp
qed

end
