(* ===== verification/Lifecycle_Properties.thy ===== *)
theory Lifecycle_Properties
  imports Scenario Reconciler_Concurrency Teardown_Metrics
begin

text \<open>
  The properties of whole runs of the teardown controller: the refinement of the lifecycle, its bounds, and the counters.
\<close>

section \<open>A concurrent scenario\<close>

text \<open>
  The teardown of the control-plane Machine, with a reconcile of a Machine that is gone in between; then the Machine
  is reconciled again, and the cache still shows it as it was before the teardown.
\<close>

definition ex_gone_key :: ObjectKey where
  "ex_gone_key = \<lparr>Namespace = ''ns'', Name = ''gone''\<rparr>"

definition ex_gone_world :: env where
  "ex_gone_world = ex_cp_world\<lparr>get_machine := \<lambda>_ _. Inl NotFound\<rparr>"

definition ex_tasks :: "task list" where
  "ex_tasks = [(ex_key, ex_cp_world), (ex_gone_key, ex_gone_world), (ex_key, ex_cp_world)]"

definition ex_interleaving :: "(ObjectKey \<times> obs) list" where
  "ex_interleaving =
     map (Pair ex_key) (take 5 ex_trace) @ (ex_gone_key, OGetMachine ex_gone_key (Inl NotFound)) #
     map (Pair ex_key) (drop 5 ex_trace) @ map (Pair ex_key) ex_trace"

definition ex_marks :: marks where
  "ex_marks = map_of (m_annotations ex_victim)"

lemma ex_keys: "ex_gone_key \<noteq> ex_key" "ex_key \<noteq> ex_gone_key"
  by (simp_all add: ex_key_def ex_gone_key_def)

lemma ex_gone_trace: "reconcile_trace ex_gone_world r ex_gone_key [] = [OGetMachine ex_gone_key (Inl NotFound)]"
  by (simp add: reconcile_trace_def Reconcile_def ex_gone_world_def start_def IsNotFound_def)

lemma ex_concurrent: "concurrent_run ex_reconciler ex_tasks ex_interleaving"
proof -
  have pair: "of_key key (map (Pair k) h) = (if k = key then h else [])" for key k and h :: history
    by (induction h) auto
  have append: "of_key key (g @ g') = of_key key g @ of_key key g'" for key g g'
    by (simp add: of_key_def)
  show ?thesis
    by (auto simp: concurrent_run_def ex_interleaving_def append pair key_history_def ex_tasks_def ex_keys
        ex_gone_trace ex_cp_trace)
qed

lemma ex_task_worlds: "\<forall>(k, E) \<in> set ex_tasks. sane_clock E \<and> lenient E = lenient ex_cp_world"
  by (simp add: ex_tasks_def sane_clock_def ex_gone_world_def ex_time_def in_calendar_def epoch_day_def Second_def)

lemma ex_cached: "justified (cached ex_key ex_marks) (map snd ex_interleaving)"
proof -
  have first: "cached ex_key ex_marks h (OGetMachine ex_key (Inr ex_victim))" for h
    by (auto simp: ObjectKeyFromObject_def ex_key_def ex_marks_def intro: bexI [of _ "[]"])
  have other: "cached ex_key ex_marks h x" if "\<not> is_read x \<or> (\<exists>k e. x = OGetMachine k (Inl e))" for h x
    using that by (cases x) auto
  have all: "justified (cached ex_key ex_marks) h" if "\<forall>x \<in> set h. (\<forall>h. cached ex_key ex_marks h x)" for h
    using that by (auto simp: justified_def)
  show ?thesis
    by (rule all) (simp add: ex_interleaving_def ex_trace_def first other del: cached.simps)
qed

section \<open>The lifecycle\<close>

text \<open>
  C8. Refinement: however many reconciles of any Machines run, interleaved request by request (but no two of one Machine at a
  time), with patches refused or accepted at will, and with reads from a cache that may show any earlier version of the Machine,
  the records the API server holds of a Machine are those of a run of the lagging teardown lifecycle. Each patch of the Machine,
  accepted or not, is a step of the lifecycle from the version it starts from; a patch that takes the hook off finds the deletion known and
  the conclusion of the reset (and, for a control-plane Machine, of the etcd phase) on the API server already; and what has been
  concluded there stays concluded.
\<close>

theorem teardown_refines_lifecycle:
  assumes "concurrent_run r tasks g"
    and "\<forall>(k, E') \<in> set tasks. sane_clock E' \<and> lenient E' = lenient E"
    and "justified (cached key L) (map snd g)"
  shows "(\<exists>S. lagging\<^sup>*\<^sup>* ({records_of E d L}, records_of E d L) (S, stored E key d L (map snd g))) \<and>
     (\<forall>g1 k before after ans g2 p.
        g = g1 @ (k, OPatch before after ans) # g2 \<and> ObjectKeyFromObject after = key \<and> p = stored E key d L (map snd g1) \<longrightarrow>
          advances (IsControlPlane before) (view E before) (view E after) \<and>
          (HasHook before \<and> \<not> HasHook after \<longrightarrow>
             lc_deleting p \<and> lc_reset p \<noteq> None \<and> (IsControlPlane before \<longrightarrow> lc_etcd p \<noteq> None))) \<and>
     (\<forall>g1 g2 p p'. g = g1 @ g2 \<and> p = stored E key d L (map snd g1) \<and> p' = stored E key d L (map snd g) \<longrightarrow>
        (lc_reset p \<noteq> None \<longrightarrow> lc_reset p' \<noteq> None) \<and> (lc_etcd p \<noteq> None \<longrightarrow> lc_etcd p' \<noteq> None))"
proof -
  note c = concurrent_simulates [OF assms]
  obtain S where "simulates E key d L (of_key key g) S"
    "stored E key d L (map snd g) = stored E key d L (of_key key g)"
    using simulates_part [OF c, of g "[]"] by auto
  then have "lagging\<^sup>*\<^sup>* ({records_of E d L}, records_of E d L) (S, stored E key d L (map snd g))"
    by (simp add: simulates_def)
  then show ?thesis
    using concurrent_patch [OF c] concurrent_upheld [OF c] by blast
qed

theorem teardown_refines_lifecycle_witness:
  "\<exists>S. lagging\<^sup>*\<^sup>* ({records_of ex_cp_world False ex_marks}, records_of ex_cp_world False ex_marks)
     (S, stored ex_cp_world ex_key False ex_marks (map snd ex_interleaving))"
  using teardown_refines_lifecycle [OF ex_concurrent ex_task_worlds ex_cached] by blast

text \<open>
  C19. Bounds: whatever the answers, and however stale the Machine it reads, one reconcile sends at most five patches; at most one if
  the Machine it reads is not being deleted; none if that Machine is being deleted, has no hook and has its reset concluded; and a
  refused patch is its last.
\<close>

theorem reconcile_patches_bounded:
  assumes "sane_clock E" and "get_machine E [] req = Inr m"
  shows "length (filter is_patch (reconcile_trace E r req [])) \<le> 5 \<and>
     (m_deletionTimestamp m = None \<longrightarrow> length (filter is_patch (reconcile_trace E r req [])) \<le> 1) \<and>
     (m_deletionTimestamp m \<noteq> None \<and> \<not> HasHook m \<and> mhas (m_annotations m) ResetAnnotation \<longrightarrow>
        \<not> list_ex is_patch (reconcile_trace E r req [])) \<and>
     (\<forall>pre before after err post. reconcile_trace E r req [] = pre @ OPatch before after (Some err) # post \<longrightarrow>
        \<not> list_ex is_patch post)"
proof -
  obtain h where h: "reconcile_trace E r req [] = OGetMachine req (Inr m) # h" "list_all (\<lambda>x. \<not> is_read x) h"
    using reconcile_reads_once [OF assms(2)] by blast
  note J = trace_justified [of E r req]
  obtain q where q: "(advances (IsControlPlane m) ^^ length (patches (reconcile_trace E r req []))) (view E m) q"
    using in_step_trace [OF assms(1) J [unfolded h(1)] h(2)] h(1) by (auto simp: in_step_def)
  have "\<not> list_ex is_patch post" if "reconcile_trace E r req [] = pre @ OPatch b a (Some e) # post" for pre b a e post
    by (rule refused_is_last [OF J [unfolded that]]) (use that h in \<open>cases pre; auto\<close>)
  then show ?thesis
    using patches_bounded [OF q]
    by (auto simp: patches_def view_def released_def mhas_def filter_empty_conv list_ex_iff)
qed

theorem reconcile_patches_bounded_witness:
  "length (filter is_patch (reconcile_trace ex_cp_world ex_reconciler ex_key [])) \<le> 5"
  using reconcile_patches_bounded [of ex_cp_world ex_key ex_victim] ex_task_worlds by (simp add: ex_tasks_def)

section \<open>Counters\<close>

text \<open>
  C21. The counters tell the truth: in every run, \<open>teardown_machines_total\<close> is the number of accepted patches that took the hook off a
  Machine, and \<open>teardown_etcd_total\<close> and \<open>teardown_reset_total\<close> count, by outcome, the accepted patches that recorded that conclusion.
\<close>

theorem counters_match_records:
  fixes v :: string
  shows "machines_total (scrape (reconcile_runs E r reqs [])) = length (filter releases_hook (reconcile_runs E r reqs [])) \<and>
     etcd_total (scrape (reconcile_runs E r reqs [])) v =
       length (filter (concludes EtcdAnnotation v) (reconcile_runs E r reqs [])) \<and>
     reset_total (scrape (reconcile_runs E r reqs [])) v =
       length (filter (concludes ResetAnnotation v) (reconcile_runs E r reqs []))"
  unfolding scrape_reported count_to_report [symmetric] runs_metered by simp

end
