(* ===== verification/Mdns.thy ===== *)
theory Mdns
  imports Kube_Api
begin

text \<open>
  \<open>internal/mdns/browser.go\<close>: endpoints discovered over mDNS. Addresses are \<open>netip.Addr\<close>; the
  zeroconf library delivers entries, the operating system resolves interface names. The goroutines of a browse
  cycle are modelled by what they consume and send: \<open>forward\<close> reads a stream of what its
  \<open>select\<close> chose, \<open>browseOnce\<close> gives the stream of each service type.
\<close>

section \<open>Addresses\<close>

text \<open>\<open>netip.Addr\<close>: the zero value, four bytes, sixteen bytes.\<close>

datatype Addr = NoAddr | V4 "nat list" | V6 "nat list"

text \<open>\<open>netip.AddrFromSlice\<close>\<close>

definition AddrFromSlice :: "nat list \<Rightarrow> Addr option" where
  "AddrFromSlice bs = (if length bs = 4 then Some (V4 bs) else if length bs = 16 then Some (V6 bs) else None)"

definition Is4In6 :: "nat list \<Rightarrow> bool" where
  "Is4In6 bs = (take 12 bs = replicate 10 0 @ [255, 255])"

fun Unmap :: "Addr \<Rightarrow> Addr" where
  "Unmap (V6 bs) = (if Is4In6 bs then V4 (drop 12 bs) else V6 bs)"
| "Unmap a = a"

fun Is4 :: "Addr \<Rightarrow> bool" where
  "Is4 (V4 _) = True"
| "Is4 _ = False"

definition string4 :: "nat list \<Rightarrow> string" where
  "string4 bs = Join (map itoa bs) (CHR ''.'')"

text \<open>The sixteen-bit groups of an IPv6 address, in hexadecimal without leading zeros.\<close>

fun groups :: "nat list \<Rightarrow> nat list" where
  "groups (a # b # rest) = (a * 256 + b) # groups rest"
| "groups _ = []"

definition hex_digit :: "nat \<Rightarrow> char" where
  "hex_digit n = (if n < 10 then char_of (48 + n) else char_of (87 + n))"

definition appendHex :: "nat \<Rightarrow> string" where
  "appendHex x =
     (if x \<ge> 4096 then [hex_digit (x div 4096)] else []) @
     (if x \<ge> 256 then [hex_digit (x div 256 mod 16)] else []) @
     (if x \<ge> 16 then [hex_digit (x div 16 mod 16)] else []) @ [hex_digit (x mod 16)]"

text \<open>The longest run of at least two zero groups, the first of several: start and end.\<close>

definition zero_run :: "nat list \<Rightarrow> nat" where
  "zero_run gs = length (takeWhile (\<lambda>g. g = 0) gs)"

fun longest_zeros :: "nat list \<Rightarrow> nat \<Rightarrow> nat \<times> nat \<Rightarrow> nat \<times> nat" where
  "longest_zeros [] i best = best"
| "longest_zeros (g # gs) i best =
     longest_zeros gs (Suc i)
       (let l = zero_run (g # gs) in if 2 \<le> l \<and> l > snd best - fst best then (i, i + l) else best)"

definition string6 :: "nat list \<Rightarrow> string" where
  "string6 bs =
     (let gs = groups bs; (zs, ze) = longest_zeros gs 0 (255, 255)
      in if zs = 255 then Join (map appendHex gs) (CHR '':'')
         else Join (map appendHex (take zs gs)) (CHR '':'') @ ''::'' @ Join (map appendHex (drop ze gs)) (CHR '':''))"

text \<open>\<open>Addr.String\<close>\<close>

fun Addr_String :: "Addr \<Rightarrow> string" where
  "Addr_String NoAddr = ''invalid IP''"
| "Addr_String (V4 bs) = string4 bs"
| "Addr_String (V6 bs) = (if Is4In6 bs then ''::ffff:'' @ string4 (drop 12 bs) else string6 bs)"

section \<open>Endpoints\<close>

record Endpoint =
  ep_Instance :: string
  ep_Service :: string
  ep_Hostname :: string
  ep_IP :: Addr
  ep_Port :: int

definition Key :: "Endpoint \<Rightarrow> string" where
  "Key e = ep_Service e @ ''/'' @ ep_Instance e"

text \<open>The fields of a \<open>zeroconf.ServiceEntry\<close> the program reads.\<close>

record ServiceEntry =
  se_Instance :: string
  se_Service :: string
  se_HostName :: string
  se_Port :: int
  se_AddrIPv4 :: "nat list list"

fun firstIPv4 :: "nat list list \<Rightarrow> Addr option" where
  "firstIPv4 [] = None"
| "firstIPv4 (ip # ips) =
     (case AddrFromSlice ip of
        Some addr \<Rightarrow> if Is4 (Unmap addr) then Some (Unmap addr) else firstIPv4 ips
      | None \<Rightarrow> firstIPv4 ips)"

definition EntryToEndpoint :: "ServiceEntry \<Rightarrow> Endpoint option" where
  "EntryToEndpoint entry =
     (case firstIPv4 (se_AddrIPv4 entry) of
        None \<Rightarrow> None
      | Some addr \<Rightarrow>
          Some \<lparr>ep_Instance = se_Instance entry, ep_Service = se_Service entry,
                ep_Hostname = se_HostName entry, ep_IP = addr, ep_Port = se_Port entry\<rparr>)"

section \<open>Browsing\<close>

record ZeroconfBrowser =
  zb_ServiceTypes :: "string list"
  zb_Domain :: string
  zb_Interval :: duration
  zb_Window :: duration
  zb_Interfaces :: "string list"

text \<open>The names that resolve (to \<open>'i\<close>) and those that do not, in order.\<close>

fun resolveInterfaces :: "(string \<Rightarrow> 'i option) \<Rightarrow> string list \<Rightarrow> 'i list \<times> string list" where
  "resolveInterfaces look [] = ([], [])"
| "resolveInterfaces look (name # names) =
     (let (ifaces, missing) = resolveInterfaces look names
      in case look name of None \<Rightarrow> (ifaces, name # missing) | Some i \<Rightarrow> (i # ifaces, missing))"

text \<open>\<open>zeroconf.ClientOption\<close>: the two the code builds.\<close>

datatype 'i client_option = SelectIPTrafficIPv4 | SelectIfaces "'i list"

definition clientOptions :: "ZeroconfBrowser \<Rightarrow> (string \<Rightarrow> 'i option) \<Rightarrow> 'i client_option list option" where
  "clientOptions b look =
     (let opts = [SelectIPTrafficIPv4]
      in if zb_Interfaces b = [] then Some opts
         else (let (ifaces, missing) = resolveInterfaces look (zb_Interfaces b)
               in if ifaces = [] then None else Some (opts @ [SelectIfaces ifaces])))"

text \<open>
  What the two \<open>select\<close> statements of \<open>forward\<close> choose: an entry, with the send accepted or the
  context ended meanwhile; the closed channel; the ended context.
\<close>

datatype select = GotEntry ServiceEntry bool | EntriesClosed | ContextDone

fun forward :: "select list \<Rightarrow> Endpoint list" where
  "forward [] = []"
| "forward (EntriesClosed # _) = []"
| "forward (ContextDone # _) = []"
| "forward (GotEntry entry sent # rest) =
     (case EntryToEndpoint entry of
        None \<Rightarrow> forward rest
      | Some ep \<Rightarrow> if sent then ep # forward rest else [])"

text \<open>
  What \<open>zeroconf.Browse\<close> delivers for a service type, a domain and the client options, as the
  forwarder meets it.
\<close>

type_synonym 'i deliver = "string \<Rightarrow> string \<Rightarrow> 'i client_option list \<Rightarrow> select list"

text \<open>
  One cycle: \<open>None\<close> when it is skipped, else the endpoints each service type's forwarder sends.
\<close>

definition browseOnce ::
  "ZeroconfBrowser \<Rightarrow> (string \<Rightarrow> 'i option) \<Rightarrow> 'i deliver \<Rightarrow> Endpoint list list option" where
  "browseOnce b look deliver =
     (case clientOptions b look of
        None \<Rightarrow> None
      | Some opts \<Rightarrow> Some (map (\<lambda>svc. forward (deliver svc (zb_Domain b) opts)) (zb_ServiceTypes b)))"

text \<open>\<open>Run\<close> over the cycles until the context ends: what each cycle sends, a skipped cycle nothing.\<close>

fun Run :: "ZeroconfBrowser \<Rightarrow> ((string \<Rightarrow> 'i option) \<times> 'i deliver) list \<Rightarrow> Endpoint list list" where
  "Run b [] = []"
| "Run b ((look, deliver) # cycles) =
     (case browseOnce b look deliver of None \<Rightarrow> [] | Some sent \<Rightarrow> sent) @ Run b cycles"

section \<open>Lemmas\<close>

lemma firstIPv4_Is4: "firstIPv4 ips = Some a \<Longrightarrow> Is4 a"
  by (induction ips) (auto split: option.splits if_splits)

lemma firstIPv4_from:
  "firstIPv4 ips = Some a \<Longrightarrow> \<exists>ip \<in> set ips. \<exists>addr. AddrFromSlice ip = Some addr \<and> a = Unmap addr"
  by (induction ips) (auto split: option.splits if_splits)

lemma firstIPv4_None:
  "firstIPv4 ips = None \<longleftrightarrow> (\<forall>ip \<in> set ips. \<forall>addr. AddrFromSlice ip = Some addr \<longrightarrow> \<not> Is4 (Unmap addr))"
  by (induction ips) (auto split: option.splits)

lemma forward_from:
  "ep \<in> set (forward xs) \<Longrightarrow> \<exists>entry sent. GotEntry entry sent \<in> set xs \<and> EntryToEndpoint entry = Some ep"
proof (induction xs rule: forward.induct)
  case (4 entry sent rest)
  then show ?case by (cases "EntryToEndpoint entry"; cases sent) auto
qed simp_all

lemma Run_from:
  "eps \<in> set (Run b cycles) \<Longrightarrow> ep \<in> set eps \<Longrightarrow>
   \<exists>look deliver svc opts entry sent. (look, deliver) \<in> set cycles \<and> svc \<in> set (zb_ServiceTypes b) \<and>
     clientOptions b look = Some opts \<and>
     GotEntry entry sent \<in> set (deliver svc (zb_Domain b) opts) \<and> EntryToEndpoint entry = Some ep"
proof (induction cycles)
  case (Cons c cycles)
  obtain look deliver where c: "c = (look, deliver)" by (cases c)
  from Cons.prems(1) consider "eps \<in> set (Run b cycles)"
    | svc opts where "svc \<in> set (zb_ServiceTypes b)" "clientOptions b look = Some opts"
        "eps = forward (deliver svc (zb_Domain b) opts)"
    by (auto simp: c browseOnce_def split: option.splits)
  then show ?case
  proof cases
    case 1
    then show ?thesis using Cons.IH [OF 1 Cons.prems(2)] by fastforce
  next
    case 2
    then show ?thesis using forward_from [of ep] Cons.prems(2) c by fastforce
  qed
qed simp

lemma resolveInterfaces_filter:
  "resolveInterfaces look names =
     (List.map_filter look names, filter (\<lambda>n. look n = None) names)"
  by (induction names) (auto simp: List.map_filter_simps split: option.split)

end
