(* ===== verification/Discovery_World.thy ===== *)
theory Discovery_World
  imports Mdns
begin

text \<open>
  The outside world of the discovery controller: what it asks of BMCs, of the API server and of the
  clock (\<open>dobs\<close>), and who answers (\<open>denv\<close>). The inventory types are those of
  \<open>bmc-toolbox/common\<close>, reduced to the fields the program reads; a pointer that may be nil is an
  \<open>option\<close>.
\<close>

section \<open>Inventory data\<close>

record NICPort =
  MacAddress :: string

record NIC =
  nic_ID :: string
  NICPorts :: "NICPort option list"

record Drive =
  LogicalName :: string

record Device =
  Vendor :: string
  Model :: string
  Serial :: string
  NICs :: "NIC option list"
  Drives :: "Drive option list"

text \<open>\<open>inventory.Credentials\<close>\<close>

record Credentials =
  Username :: string
  Password :: string

section \<open>What the program asks\<close>

text \<open>The client \<open>newBMCClient\<close> builds, drivers by name and in order.\<close>

record bmc_client =
  bc_host :: string
  bc_username :: string
  bc_password :: string
  bc_redfishPort :: string
  bc_useBasicAuth :: bool
  bc_drivers :: "string list"

text \<open>\<open>gofish.ClientConfig\<close>\<close>

record redfish_config =
  rf_endpoint :: string
  rf_username :: string
  rf_password :: string
  rf_insecure :: bool
  rf_basicAuth :: bool

text \<open>An \<open>EthernetInterface\<close> of a Redfish system.\<close>

record EthernetInterface =
  ei_ID :: string
  PermanentMACAddress :: string
  ei_MACAddress :: string

text \<open>
  Requests with their answers. \<open>DOpen\<close>, \<open>DInventory\<close> and \<open>DConnect\<close> carry the timeout of their
  context; \<open>DApply\<close> carries the payload, the field manager and whether ownership is forced.
\<close>

datatype dobs =
    DOpen bmc_client duration "go_error option"
  | DInventory bmc_client duration "go_error + Device option"
  | DClose bmc_client
  | DConnect redfish_config duration "go_error option"
  | DSystems redfish_config "go_error + string list"
  | DEthernet redfish_config string "go_error + EthernetInterface list"
  | DLogout redfish_config
  | DNow time
  | DGet gotype ObjectKey "api_error + kobj"
  | DCreate kobj string "api_error option"
  | DApply json string bool "api_error option"

text \<open>
  Who answers: the history so far and the request determine the answer. The last group are library functions:
  the drivers a new bmclib client registers, \<open>PreferDriver\<close>, the API versions of the two
  Tinkerbell groups, the conversion to unstructured content, the removal of a nested field, and
  the Unicode lower-case table beyond ASCII.
\<close>

record denv =
  open_bmc :: "dobs list \<Rightarrow> bmc_client \<Rightarrow> duration \<Rightarrow> go_error option"
  inventory :: "dobs list \<Rightarrow> bmc_client \<Rightarrow> duration \<Rightarrow> go_error + Device option"
  redfish_connect :: "dobs list \<Rightarrow> redfish_config \<Rightarrow> duration \<Rightarrow> go_error option"
  redfish_systems :: "dobs list \<Rightarrow> redfish_config \<Rightarrow> go_error + string list"
  redfish_ethernet :: "dobs list \<Rightarrow> redfish_config \<Rightarrow> string \<Rightarrow> go_error + EthernetInterface list"
  clock :: "dobs list \<Rightarrow> time"
  get_object :: "dobs list \<Rightarrow> gotype \<Rightarrow> ObjectKey \<Rightarrow> api_error + kobj"
  create_object :: "dobs list \<Rightarrow> kobj \<Rightarrow> api_error option"
  apply_object :: "dobs list \<Rightarrow> json \<Rightarrow> api_error option"
  registered :: "string \<Rightarrow> string list"
  prefer_driver :: "string \<Rightarrow> string list \<Rightarrow> string list"
  bmc_group_version :: string
  tink_group_version :: string
  to_unstructured :: "kobj \<Rightarrow> go_error + json"
  remove_nested :: "json \<Rightarrow> string list \<Rightarrow> json"
  lower_table :: "rune \<Rightarrow> rune"

type_synonym 'a dprog = "(dobs, unit, 'a) prog"
type_synonym dstate = "dobs world"

text \<open>Requests to BMCs, requests to the API server, and writes to it.\<close>

fun is_bmc :: "dobs \<Rightarrow> bool" where
  "is_bmc (DOpen _ _ _) = True"
| "is_bmc (DInventory _ _ _) = True"
| "is_bmc (DClose _) = True"
| "is_bmc (DConnect _ _ _) = True"
| "is_bmc (DSystems _ _) = True"
| "is_bmc (DEthernet _ _ _) = True"
| "is_bmc (DLogout _) = True"
| "is_bmc _ = False"

fun is_dwrite :: "dobs \<Rightarrow> bool" where
  "is_dwrite (DCreate _ _ _) = True"
| "is_dwrite (DApply _ _ _ _) = True"
| "is_dwrite _ = False"

lemma is_bmc_not_write: "is_bmc x \<Longrightarrow> \<not> is_dwrite x"
  by (cases x) auto

section \<open>The collector interface\<close>

text \<open>
  What the worker relies on in an \<open>inventory.Collector\<close>: it only talks to the BMC, and when it returns a
  device, \<open>evidence\<close> for the endpoint, the credentials and the device is in the history, where it stays.
\<close>

locale collector =
  fixes collect :: "Endpoint \<Rightarrow> Credentials \<Rightarrow> (go_error + Device option) dprog"
    and evidence :: "Endpoint \<Rightarrow> Credentials \<Rightarrow> Device \<Rightarrow> dobs list \<Rightarrow> bool"
  assumes bmc_only: "emits is_bmc (collect ep creds)"
    and success: "wp (collect ep creds) (\<lambda>r t. \<forall>dev. r = Inr (Some dev) \<longrightarrow> evidence ep creds dev (hist t)) s"
    and lasting: "stable (evidence ep creds dev)"

end
