(* ===== verification/Names.thy ===== *)
theory Names
  imports Discovery_World
begin

text \<open>
  \<open>internal/sync/names.go\<close> and the MAC selection of \<open>internal/sync/mapping.go\<close>: how a discovered
  BMC gets its resource name. \<open>u\<close> is the Unicode lower-case table beyond ASCII. The two
  regular expressions are written out as recognisers.
\<close>

section \<open>MAC addresses (mapping.go)\<close>

definition hexLower :: "char \<Rightarrow> bool" where
  "hexLower c = ((CHR ''0'' \<le> c \<and> c \<le> CHR ''9'') \<or> (CHR ''a'' \<le> c \<and> c \<le> CHR ''f''))"

text \<open>\<open>^([0-9a-f]{2}:){5}[0-9a-f]{2}$\<close>\<close>

fun macGroups :: "nat \<Rightarrow> string \<Rightarrow> bool" where
  "macGroups 0 s = (case s of [a, b] \<Rightarrow> hexLower a \<and> hexLower b | _ \<Rightarrow> False)"
| "macGroups (Suc n) s =
     (case s of a # b # c # rest \<Rightarrow> hexLower a \<and> hexLower b \<and> c = CHR '':'' \<and> macGroups n rest | _ \<Rightarrow> False)"

definition macPattern :: "string \<Rightarrow> bool" where
  "macPattern s = macGroups 5 s"

text \<open>The ports of a NIC, then the NICs; \<open>seen\<close> holds exactly the MACs found so far.\<close>

fun portMACs :: "(rune \<Rightarrow> rune) \<Rightarrow> NICPort option list \<Rightarrow> string list \<Rightarrow> string list" where
  "portMACs u [] macs = macs"
| "portMACs u (None # ports) macs = portMACs u ports macs"
| "portMACs u (Some port # ports) macs =
     (let mac = ToLower u (MacAddress port)
      in if \<not> macPattern mac \<or> mac \<in> set macs then portMACs u ports macs
         else portMACs u ports (macs @ [mac]))"

fun nicMACs :: "(rune \<Rightarrow> rune) \<Rightarrow> NIC option list \<Rightarrow> string list \<Rightarrow> string list" where
  "nicMACs u [] macs = macs"
| "nicMACs u (None # nics) macs = nicMACs u nics macs"
| "nicMACs u (Some nic # nics) macs = nicMACs u nics (portMACs u (NICPorts nic) macs)"

definition inbandMACs :: "(rune \<Rightarrow> rune) \<Rightarrow> Device \<Rightarrow> string list" where
  "inbandMACs u dev = nicMACs u (NICs dev) []"

definition PrimaryMAC :: "(rune \<Rightarrow> rune) \<Rightarrow> Device \<Rightarrow> string" where
  "PrimaryMAC u dev = (case inbandMACs u dev of [] \<Rightarrow> '''' | mac # _ \<Rightarrow> mac)"

section \<open>Names (names.go)\<close>

definition labelRune :: "rune \<Rightarrow> bool" where
  "labelRune r = ((97 \<le> r \<and> r \<le> 122) \<or> (48 \<le> r \<and> r \<le> 57))"

text \<open>The loop of \<open>SanitizeName\<close>, with \<open>lastDash\<close>.\<close>

fun sanitize :: "bool \<Rightarrow> rune list \<Rightarrow> string" where
  "sanitize lastDash [] = []"
| "sanitize lastDash (r # rs) =
     (if labelRune r then char_of r # sanitize False rs
      else if \<not> lastDash then CHR ''-'' # sanitize True rs
      else sanitize lastDash rs)"

definition SanitizeName :: "(rune \<Rightarrow> rune) \<Rightarrow> string \<Rightarrow> string" where
  "SanitizeName u s =
     (let out = TrimRight (sanitize True (runes (ToLower u s))) (CHR ''-'')
      in if length out > 63 then TrimRight (take 63 out) (CHR ''-'') else out)"

text \<open>
  \<open>strings.NewReplacer(".", "-", ":", "-")\<close>
\<close>

definition dashes :: "string \<Rightarrow> string" where
  "dashes s = map (\<lambda>c. if c = CHR ''.'' \<or> c = CHR '':'' then CHR ''-'' else c) s"

definition varChar :: "char \<Rightarrow> bool" where
  "varChar c = ((CHR ''a'' \<le> c \<and> c \<le> CHR ''z'') \<or> c = CHR ''_'')"

text \<open>
  A match of \<open>\\$\\{([a-z_]+)\\}\<close> at the start of a string: the variable and the rest. The class
  excludes the closing brace, so the greedy match is the only one.
\<close>

definition templateVar :: "string \<Rightarrow> (string \<times> string) option" where
  "templateVar s =
     (if take 2 s = ''${'' then
        (let name = takeWhile varChar (drop 2 s); rest = dropWhile varChar (drop 2 s)
         in if name \<noteq> [] \<and> rest \<noteq> [] \<and> hd rest = CHR ''}'' then Some (name, tl rest) else None)
      else None)"

lemma templateVar_shorter: "templateVar s = Some (name, rest) \<Longrightarrow> length rest < length s"
proof -
  assume "templateVar s = Some (name, rest)"
  then have "rest = tl (dropWhile varChar (drop 2 s))" and "s \<noteq> []"
    by (auto simp: templateVar_def Let_def split: if_splits)
  then show ?thesis
    using length_dropWhile_le [of varChar "drop 2 s"] by (cases s) auto
qed

text \<open>\<open>ReplaceAllStringFunc\<close> with the closure of \<open>TemplateName\<close>: the text and \<open>unresolved\<close>.\<close>

function expand :: "smap \<Rightarrow> string \<Rightarrow> string \<times> bool" where
  "expand vars s =
     (case s of
        [] \<Rightarrow> ([], False)
      | c # cs \<Rightarrow>
          (case templateVar s of
             Some (name, rest) \<Rightarrow>
               (let value = mget vars name; (out, unresolved) = expand vars rest
                in (value @ out, value = '''' \<or> unresolved))
           | None \<Rightarrow> (let (out, unresolved) = expand vars cs in (c # out, unresolved))))"
  by pat_completeness auto
termination
  by (relation "measure (\<lambda>(vars, s). length s)") (auto dest: templateVar_shorter)

declare expand.simps [simp del]

definition templateVars :: "(rune \<Rightarrow> rune) \<Rightarrow> Endpoint \<Rightarrow> Device \<Rightarrow> smap" where
  "templateVars u ep dev =
     (let mac = PrimaryMAC u dev; host = CutBefore (ep_Hostname ep) (CHR ''.'')
      in [(''mac'', ReplaceAll mac (CHR '':'') ''''), (''mac_dashes'', ReplaceAll mac (CHR '':'') ''-''),
          (''hostname'', host), (''instance'', ep_Instance ep), (''serial'', Serial dev),
          (''ip'', dashes (Addr_String (ep_IP ep)))])"

definition TemplateName :: "(rune \<Rightarrow> rune) \<Rightarrow> string \<Rightarrow> Endpoint \<Rightarrow> Device \<Rightarrow> string" where
  "TemplateName u tmpl ep dev =
     (if tmpl = '''' then ''''
      else (let (out, unresolved) = expand (templateVars u ep dev) tmpl
            in if unresolved then '''' else SanitizeName u out))"

definition ResourceName :: "(rune \<Rightarrow> rune) \<Rightarrow> Endpoint \<Rightarrow> string" where
  "ResourceName u ep =
     (let host = SanitizeName u (CutBefore (ep_Hostname ep) (CHR ''.''));
          inst = SanitizeName u (ep_Instance ep)
      in if host \<noteq> '''' then host
         else if inst \<noteq> '''' then inst
         else ''bmc-'' @ SanitizeName u (dashes (Addr_String (ep_IP ep))))"

section \<open>MAC addresses: lemmas\<close>

definition macOK :: "string list \<Rightarrow> bool" where
  "macOK macs = (distinct macs \<and> list_all macPattern macs)"

lemma macOK_portMACs: "macOK macs \<Longrightarrow> macOK (portMACs u ports macs)"
  by (induction u ports macs rule: portMACs.induct) (auto simp: Let_def macOK_def)

lemma macOK_inbandMACs: "macOK (inbandMACs u dev)"
proof -
  have "macOK macs \<Longrightarrow> macOK (nicMACs u nics macs)" for nics macs
    by (induction u nics macs rule: nicMACs.induct) (auto intro: macOK_portMACs)
  then show ?thesis by (simp add: inbandMACs_def macOK_def)
qed

text \<open>Reference: all ports in order, lower-cased, the valid ones, first occurrences.\<close>

fun somes :: "'a option list \<Rightarrow> 'a list" where
  "somes [] = []"
| "somes (None # xs) = somes xs"
| "somes (Some x # xs) = x # somes xs"

definition devicePorts :: "Device \<Rightarrow> NICPort list" where
  "devicePorts dev = concat (map (\<lambda>nic. somes (NICPorts nic)) (somes (NICs dev)))"

definition validMACs :: "(rune \<Rightarrow> rune) \<Rightarrow> NICPort list \<Rightarrow> string list" where
  "validMACs u ports = filter macPattern (map (\<lambda>p. ToLower u (MacAddress p)) ports)"

text \<open>First occurrences, in order (\<open>remdups\<close> keeps the last ones).\<close>

definition firsts :: "'a list \<Rightarrow> 'a list \<Rightarrow> 'a list" where
  "firsts acc xs = fold (\<lambda>x acc. if x \<in> set acc then acc else acc @ [x]) xs acc"

lemma firsts_append: "firsts acc (xs @ ys) = firsts (firsts acc xs) ys"
  by (simp add: firsts_def)

lemma portMACs_firsts: "portMACs u ports macs = firsts macs (validMACs u (somes ports))"
  by (induction u ports macs rule: portMACs.induct)
     (auto simp: firsts_def validMACs_def Let_def)

lemma inbandMACs_firsts: "inbandMACs u dev = firsts [] (validMACs u (devicePorts dev))"
proof -
  have "nicMACs u nics macs =
      firsts macs (validMACs u (concat (map (\<lambda>nic. somes (NICPorts nic)) (somes nics))))"
    for nics macs
  proof (induction u nics macs rule: nicMACs.induct)
    case (1 u macs)
    show ?case by (simp add: validMACs_def firsts_def)
  qed (simp_all add: portMACs_firsts firsts_append validMACs_def)
  then show ?thesis by (simp add: inbandMACs_def devicePorts_def)
qed

lemma set_firsts: "set (firsts acc xs) = set acc \<union> set xs"
  by (induction xs arbitrary: acc) (auto simp: firsts_def)

lemma length_firsts: "length (firsts acc xs) \<le> length acc + length xs"
proof (induction xs arbitrary: acc)
  case (Cons x xs)
  show ?case
    using Cons.IH [of acc] Cons.IH [of "acc @ [x]"] by (auto simp: firsts_def)
qed (simp add: firsts_def)

lemma firsts_keeps: "acc \<noteq> [] \<Longrightarrow> firsts acc xs \<noteq> [] \<and> hd (firsts acc xs) = hd acc"
  by (induction xs arbitrary: acc) (auto simp: firsts_def)

lemma hd_firsts: "firsts [] (x # xs) \<noteq> [] \<and> hd (firsts [] (x # xs)) = x"
  using firsts_keeps [of "[x]" xs] by (simp add: firsts_def)

lemma PrimaryMAC_first: "PrimaryMAC u dev = (case validMACs u (devicePorts dev) of [] \<Rightarrow> '''' | m # _ \<Rightarrow> m)"
proof (cases "validMACs u (devicePorts dev)")
  case (Cons m ms)
  then show ?thesis
    using hd_firsts [of m ms] by (auto simp: PrimaryMAC_def inbandMACs_firsts split: list.split)
qed (simp add: PrimaryMAC_def inbandMACs_firsts firsts_def)

section \<open>Names: lemmas\<close>

definition labelChar :: "char \<Rightarrow> bool" where
  "labelChar c = ((CHR ''a'' \<le> c \<and> c \<le> CHR ''z'') \<or> (CHR ''0'' \<le> c \<and> c \<le> CHR ''9''))"

text \<open>RFC 1123: lower-case alphanumerics and inner dashes, 1 to 63 of them.\<close>

definition rfc1123_label :: "string \<Rightarrow> bool" where
  "rfc1123_label s =
     (s \<noteq> [] \<and> length s \<le> 63 \<and> list_all (\<lambda>c. labelChar c \<or> c = CHR ''-'') s \<and>
      labelChar (hd s) \<and> labelChar (last s))"

text \<open>What the loop writes: no dash in front, no two in a row.\<close>

fun dash_free :: "bool \<Rightarrow> string \<Rightarrow> bool" where
  "dash_free lastDash [] = True"
| "dash_free lastDash (c # cs) =
     (if c = CHR ''-'' then \<not> lastDash \<and> dash_free True cs else labelChar c \<and> dash_free False cs)"

lemma of_char_le_iff: "(c :: char) \<le> d \<longleftrightarrow> (of_char c :: nat) \<le> of_char d"
  by (simp add: less_eq_char_def)

lemma labelChar_char_of [simp]: "labelRune r \<Longrightarrow> labelChar (char_of r)"
  by (auto simp: labelRune_def labelChar_def of_char_le_iff)

lemma labelRune_of_char: "labelRune (of_char c) = labelChar c"
  by (simp add: labelRune_def labelChar_def of_char_le_iff)

lemma labelChar_dash [simp]: "\<not> labelChar (CHR ''-'')"
  by (simp add: labelChar_def of_char_le_iff)

lemma char_of_label_dash: "labelRune r \<Longrightarrow> char_of r \<noteq> CHR ''-''"
  using labelChar_char_of labelChar_dash by metis

lemma dash_free_sanitize: "dash_free d (sanitize d rs)"
  by (induction d rs rule: sanitize.induct) (auto simp: char_of_label_dash)

lemma dash_free_chars: "dash_free d s \<Longrightarrow> list_all (\<lambda>c. labelChar c \<or> c = CHR ''-'') s"
  by (induction d s rule: dash_free.induct) (auto split: if_splits)

lemma dash_free_append: "dash_free d (s @ t) \<Longrightarrow> dash_free d s"
  by (induction d s rule: dash_free.induct) (auto split: if_splits)

lemma dash_free_take: "dash_free d s \<Longrightarrow> dash_free d (take n s)"
  by (rule dash_free_append [where t = "drop n s"]) simp

lemma dash_free_TrimRight: "dash_free d s \<Longrightarrow> dash_free d (TrimRight s c)"
  using TrimRight_append [of s c] dash_free_append by metis

lemma dash_free_label:
  assumes "dash_free True s" and "s \<noteq> []" and "last s \<noteq> CHR ''-''" and "length s \<le> 63"
  shows "rfc1123_label s"
proof -
  have all: "list_all (\<lambda>c. labelChar c \<or> c = CHR ''-'') s" using dash_free_chars [OF assms(1)] .
  moreover from this assms(2,3) have "labelChar (last s)" by (auto simp: list_all_iff)
  moreover have "labelChar (hd s)" using assms(1,2) by (cases s) (auto split: if_splits)
  ultimately show ?thesis using assms by (simp add: rfc1123_label_def)
qed

lemma SanitizeName_facts:
  "dash_free True (SanitizeName u s) \<and> length (SanitizeName u s) \<le> 63 \<and>
   (SanitizeName u s \<noteq> [] \<longrightarrow> last (SanitizeName u s) \<noteq> CHR ''-'')"
proof -
  let ?out = "TrimRight (sanitize True (runes (ToLower u s))) (CHR ''-'')"
  have df: "dash_free True ?out" by (rule dash_free_TrimRight) (rule dash_free_sanitize)
  show ?thesis
  proof (cases "length ?out > 63")
    case True
    then have "SanitizeName u s = TrimRight (take 63 ?out) (CHR ''-'')"
      by (simp add: SanitizeName_def Let_def)
    with df show ?thesis
      using length_TrimRight [of "take 63 ?out"] TrimRight_last [of "take 63 ?out"]
      by (simp add: dash_free_TrimRight dash_free_take)
  next
    case False
    then have "SanitizeName u s = ?out" by (simp add: SanitizeName_def Let_def)
    with df False show ?thesis using TrimRight_last by simp
  qed
qed

lemma SanitizeName_label: "SanitizeName u s = [] \<or> rfc1123_label (SanitizeName u s)"
  using SanitizeName_facts [of u s] dash_free_label by blast

text \<open>A string that is a label already stays as it is.\<close>

lemma sanitize_dash_free: "dash_free d s \<Longrightarrow> sanitize d (map of_char s) = s"
proof (induction d s rule: dash_free.induct)
  case (2 d c cs)
  then show ?case
    using labelRune_of_char [of c] by (cases "c = CHR ''-''") (auto simp: labelRune_of_char labelRune_def)
qed simp

lemma ascii_label: "list_all (\<lambda>c. labelChar c \<or> c = CHR ''-'') s \<Longrightarrow> ascii s"
  by (auto simp: ascii_def list_all_iff labelChar_def of_char_le_iff)

lemma lower_label: "labelChar c \<or> c = CHR ''-'' \<Longrightarrow> lower_char c = c"
  by (auto simp: lower_char_def labelChar_def of_char_le_iff)

lemma ToLower_label: "list_all (\<lambda>c. labelChar c \<or> c = CHR ''-'') s \<Longrightarrow> ToLower u s = s"
  by (simp add: ToLower_ascii ascii_label) (auto simp: list_all_iff lower_label map_idI)

lemma SanitizeName_fixed:
  assumes "dash_free True s" and "length s \<le> 63" and "s \<noteq> [] \<longrightarrow> last s \<noteq> CHR ''-''"
  shows "SanitizeName u s = s"
proof -
  have "ToLower u s = s" "runes s = map of_char s"
    using dash_free_chars [OF assms(1)] by (simp_all add: ToLower_label runes_ascii ascii_label)
  with assms show ?thesis
    by (auto simp: SanitizeName_def Let_def sanitize_dash_free TrimRight_id)
qed

lemma SanitizeName_idem: "SanitizeName u (SanitizeName v s) = SanitizeName v s"
  using SanitizeName_facts [of v s] by (intro SanitizeName_fixed) auto

section \<open>Resource names of IPv4 endpoints: lemmas\<close>

lemma length_itoa: "n < 10 ^ k \<Longrightarrow> 0 < k \<Longrightarrow> length (itoa n) \<le> k"
proof (induction k arbitrary: n)
  case (Suc k)
  show ?case
  proof (cases "n < 10")
    case True
    then show ?thesis by (subst itoa.simps) simp
  next
    case False
    with Suc.prems have "n div 10 < 10 ^ k" "0 < k"
      by (auto simp: div_less_iff_less_mult intro!: gr0I)
    with Suc.IH have "length (itoa (n div 10)) \<le> k" by blast
    then show ?thesis by (subst itoa.simps) (simp add: False)
  qed
qed simp

lemma labelChar_itoa: "c \<in> set (itoa n) \<Longrightarrow> labelChar c"
  using itoa_digits by (auto simp: labelChar_def of_char_le_iff)

lemma dash_free_labels: "list_all labelChar w \<Longrightarrow> w \<noteq> [] \<Longrightarrow> dash_free d (w @ s) = dash_free False s"
proof (induction w arbitrary: d)
  case (Cons c w)
  then have "c \<noteq> CHR ''-''" by auto
  with Cons show ?case by (cases "w = []") auto
qed simp

lemma dashes_labels: "list_all labelChar w \<Longrightarrow> dashes w = w"
  by (induction w) (auto simp: dashes_def labelChar_def of_char_le_iff)

lemma dashes_string4: "dashes (string4 [a, b, c, d]) = itoa a @ ''-'' @ itoa b @ ''-'' @ itoa c @ ''-'' @ itoa d"
proof -
  have "dashes (itoa n) = itoa n" for n
    by (rule dashes_labels) (auto simp: list_all_iff labelChar_itoa)
  then show ?thesis by (simp add: string4_def dashes_def)
qed

lemma sanitized_IPv4:
  assumes "a < 256" "b < 256" "c < 256" "d < 256"
  shows "SanitizeName u (dashes (string4 [a, b, c, d])) = dashes (string4 [a, b, c, d])"
    and "length (dashes (string4 [a, b, c, d])) \<le> 15"
proof -
  have len: "length (itoa n) \<le> 3" if "n < 256" for n using that by (intro length_itoa) auto
  show *: "length (dashes (string4 [a, b, c, d])) \<le> 15"
    unfolding dashes_string4 using assms len [of a] len [of b] len [of c] len [of d] by simp
  have lab: "list_all labelChar (itoa n)" for n by (auto simp: list_all_iff labelChar_itoa)
  have df: "dash_free True (dashes (string4 [a, b, c, d]))"
    unfolding dashes_string4 using dash_free_labels [OF lab, of d True "[]"]
    by (simp add: dash_free_labels [OF lab])
  have "last (itoa d) \<noteq> CHR ''-''"
    using labelChar_itoa [OF last_in_set [of "itoa d"]] by auto
  with df * show "SanitizeName u (dashes (string4 [a, b, c, d])) = dashes (string4 [a, b, c, d])"
    by (intro SanitizeName_fixed) (auto simp: dashes_string4)
qed

lemma length4: "length xs = 4 \<Longrightarrow> \<exists>a b c d. xs = [a, b, c, d]"
  by (auto simp: length_Suc_conv numeral_eq_Suc)

lemma ResourceName_label:
  assumes "ep_IP ep = V4 bs" and "length bs = 4" and "list_all (\<lambda>b. b < 256) bs"
  shows "rfc1123_label (ResourceName u ep)"
proof -
  obtain a b c d where bs: "bs = [a, b, c, d]" using length4 [OF assms(2)] by blast
  let ?ip = "dashes (string4 bs)"
  have ip: "SanitizeName u ?ip = ?ip" "length ?ip \<le> 15"
    using sanitized_IPv4 [of a b c d] assms(3) by (simp_all add: bs)
  have "rfc1123_label (''bmc-'' @ ?ip)"
  proof (rule dash_free_label)
    have "labelChar (last ?ip)" "?ip \<noteq> []"
      using labelChar_itoa [OF last_in_set [of "itoa d"]] by (simp_all add: bs dashes_string4)
    then show "last (''bmc-'' @ ?ip) \<noteq> CHR ''-''" by auto
    have lab: "list_all labelChar (itoa n)" for n by (auto simp: list_all_iff labelChar_itoa)
    have "dash_free True (''bmc'' @ CHR ''-'' # ?ip)"
      unfolding bs dashes_string4 using dash_free_labels [OF lab, of d True "[]"]
      by (simp add: dash_free_labels [OF lab] labelChar_def of_char_le_iff)
    then show "dash_free True (''bmc-'' @ ?ip)" by simp
  qed (use ip in auto)
  then show ?thesis
    using SanitizeName_label [of u] assms(1) ip by (auto simp: ResourceName_def Let_def)
qed

section \<open>Templates: lemmas\<close>

lemma templateVar_ref:
  assumes "list_all varChar name" and "name \<noteq> []"
  shows "templateVar (''${'' @ name @ ''}'' @ rest) = Some (name, rest)"
proof -
  have "\<not> varChar (CHR ''}'')" by (simp add: varChar_def of_char_le_iff)
  with assms show ?thesis
    by (simp add: templateVar_def takeWhile_append dropWhile_append list_all_iff)
qed

lemma expand_Nil [simp]: "expand vars [] = ([], False)"
  by (simp add: expand.simps)

lemma expand_ref:
  assumes "list_all varChar name" and "name \<noteq> []"
  shows "expand vars (''${'' @ name @ ''}'' @ rest) =
     (mget vars name @ fst (expand vars rest), mget vars name = '''' \<or> snd (expand vars rest))"
  using templateVar_ref [OF assms, of rest]
  by (subst expand.simps) (auto simp: Let_def split: prod.split)

lemma expand_char: "templateVar (c # cs) = None \<Longrightarrow> expand vars (c # cs) = (c # fst (expand vars cs), snd (expand vars cs))"
  by (subst expand.simps) (auto split: prod.split)

lemma expand_plain:
  "CHR ''$'' \<notin> set p \<Longrightarrow> expand vars (p @ s) = (p @ fst (expand vars s), snd (expand vars s))"
proof (induction p)
  case (Cons c p)
  then have "templateVar (c # (p @ s)) = None" by (auto simp: templateVar_def)
  with Cons show ?case by (simp add: expand_char)
qed simp

lemma TemplateName_label: "TemplateName u tmpl ep dev = [] \<or> rfc1123_label (TemplateName u tmpl ep dev)"
  using SanitizeName_label by (auto simp: TemplateName_def split: prod.split)

text \<open>The MAC without its colons.\<close>

lemma macGroups_strip:
  "macGroups n s \<Longrightarrow> list_all labelChar (ReplaceAll s (CHR '':'') '''') \<and>
     length (ReplaceAll s (CHR '':'') '''') = 2 * Suc n"
  by (induction n s rule: macGroups.induct)
     (auto simp: ReplaceAll_def hexLower_def labelChar_def of_char_le_iff split: list.splits)

lemma macGroups_inj:
  "macGroups n s \<Longrightarrow> macGroups n t \<Longrightarrow> ReplaceAll s (CHR '':'') '''' = ReplaceAll t (CHR '':'') '''' \<Longrightarrow> s = t"
  by (induction n arbitrary: s t)
     (auto simp: ReplaceAll_def hexLower_def of_char_le_iff split: list.splits if_splits)

lemma PrimaryMAC_pattern: "PrimaryMAC u dev = '''' \<or> macPattern (PrimaryMAC u dev)"
  using macOK_inbandMACs [of u dev] by (auto simp: PrimaryMAC_def macOK_def split: list.split)

text \<open>A template that ends in the MAC, after a prefix that is a proper start of a label.\<close>

lemma TemplateName_mac:
  assumes "dash_free True p" and "length p \<le> 51" and "PrimaryMAC u dev \<noteq> ''''"
  shows "TemplateName u (p @ ''${mac}'') ep dev = p @ ReplaceAll (PrimaryMAC u dev) (CHR '':'') ''''"
proof -
  let ?m = "ReplaceAll (PrimaryMAC u dev) (CHR '':'') ''''"
  have m: "list_all labelChar ?m" "length ?m = 12"
    using macGroups_strip [of 5 "PrimaryMAC u dev"] PrimaryMAC_pattern [of u dev] assms(3)
    by (auto simp: macPattern_def)
  then have ne: "?m \<noteq> ''''" by auto
  have "CHR ''$'' \<notin> set p"
    using dash_free_chars [OF assms(1)] by (auto simp: list_all_iff labelChar_def of_char_le_iff)
  moreover have "expand (templateVars u ep dev) ''${mac}'' = (?m, False)"
    using expand_ref [of "''mac''" "templateVars u ep dev" "[]"] ne
    by (simp add: varChar_def of_char_le_iff templateVars_def Let_def mget_def)
  ultimately have ex: "expand (templateVars u ep dev) (p @ ''${mac}'') = (p @ ?m, False)"
    using expand_plain [of p "templateVars u ep dev" "''${mac}''"] by simp
  have "SanitizeName u (p @ ?m) = p @ ?m"
  proof (rule SanitizeName_fixed)
    have "dash_free d p \<Longrightarrow> dash_free d (p @ ?m)" for d
    proof (induction d p rule: dash_free.induct)
      case (1 d)
      show ?case using dash_free_labels [OF m(1) ne, of d "[]"] by simp
    qed (auto split: if_splits)
    with assms(1) show "dash_free True (p @ ?m)" by blast
    have "labelChar (last ?m)" using m(1) last_in_set [OF ne] by (auto simp: list_all_iff)
    with ne show "p @ ?m \<noteq> [] \<longrightarrow> last (p @ ?m) \<noteq> CHR ''-''" by auto
  qed (use assms m in auto)
  with ex show ?thesis by (simp add: TemplateName_def)
qed

end
