(* ===== verification/Hardware_Mapping.thy ===== *)
theory Hardware_Mapping
  imports Names
begin

text \<open>
  \<open>internal/sync/mapping.go\<close>: the sparse objects the discovery controller asserts for a BMC. A
  field left unset is \<open>None\<close> or empty.
\<close>

section \<open>Constants\<close>

definition ManagedByLabel :: string where
  "ManagedByLabel = ''discovery.tinkerbell.org/managed-by''"

definition ManagedByValue :: string where
  "ManagedByValue = ''tinkerbell-bmc-discovery-controller''"

definition FieldManager :: string where
  "FieldManager = ManagedByValue"

definition LastSeenAnnotation :: string where
  "LastSeenAnnotation = ''discovery.tinkerbell.org/last-seen''"

definition InstanceAnnotation :: string where
  "InstanceAnnotation = ''discovery.tinkerbell.org/mdns-instance''"

definition ServiceAnnotation :: string where
  "ServiceAnnotation = ''discovery.tinkerbell.org/mdns-service''"

section \<open>The desired objects\<close>

definition DesiredAuthSecret :: "string \<Rightarrow> string \<Rightarrow> Credentials \<Rightarrow> kobj" where
  "DesiredAuthSecret name namespace creds =
     \<lparr>k_type = \<lparr>APIVersion = ''v1'', Kind = ''Secret''\<rparr>,
      k_meta = meta_of name namespace,
      k_body = BSecret [(''username'', Username creds), (''password'', Password creds)]\<rparr>"

definition DesiredMachine ::
  "denv \<Rightarrow> Endpoint \<Rightarrow> string \<Rightarrow> string \<Rightarrow> bool \<Rightarrow> SecretReference \<Rightarrow> kobj" where
  "DesiredMachine E ep name namespace insecureTLS authRef =
     \<lparr>k_type = \<lparr>APIVersion = bmc_group_version E, Kind = ''Machine''\<rparr>,
      k_meta = meta_of name namespace,
      k_body = BMachine
        \<lparr>cn_host = Addr_String (ep_IP ep), cn_port = ep_Port ep, cn_authSecretRef = authRef,
         cn_insecureTLS = insecureTLS, cn_preferredOrder = [''gofish''],
         cn_redfishPort = ep_Port ep, cn_useBasicAuth = True\<rparr>\<rparr>"

record HardwareOptions =
  ho_Name :: string
  ho_Namespace :: string
  ho_FacilityCode :: string
  ho_AutoEnrollment :: bool

definition defaultNetboot :: Netboot where
  "defaultNetboot = \<lparr>AllowPXE = Some True, AllowWorkflow = Some True, nb_ipxe = None, nb_osie = None\<rparr>"

definition netbootFor :: "HardwareSpec option \<Rightarrow> Netboot" where
  "netbootFor live =
     (case live of
        Some spec \<Rightarrow>
          (case hs_interfaces spec of
             iface # _ \<Rightarrow> (case if_netboot iface of Some n \<Rightarrow> n | None \<Rightarrow> defaultNetboot)
           | [] \<Rightarrow> defaultNetboot)
      | None \<Rightarrow> defaultNetboot)"

fun driveDisks :: "Drive option list \<Rightarrow> string list" where
  "driveDisks [] = []"
| "driveDisks (drive # drives) =
     (case drive of
        Some d \<Rightarrow> if LogicalName d \<noteq> '''' then LogicalName d # driveDisks drives else driveDisks drives
      | None \<Rightarrow> driveDisks drives)"

definition DesiredHardware :: "denv \<Rightarrow> Device \<Rightarrow> HardwareOptions \<Rightarrow> HardwareSpec option \<Rightarrow> kobj" where
  "DesiredHardware E dev opts live =
     (let u = lower_table E; mac = PrimaryMAC u dev;
          instanceID = (if mac = '''' then Serial dev else mac);
          spec =
            \<lparr>hs_agentID = mac,
             hs_enrollmentEnabled = ho_AutoEnrollment opts,
             hs_bmcRef = Some \<lparr>ref_apiGroup = ''bmc.tinkerbell.org/v1alpha1'', ref_kind = ''Machine'',
                               ref_name = ho_Name opts\<rparr>,
             hs_metadata = Some
               \<lparr>md_manufacturer_slug = SanitizeName u (Vendor dev),
                md_facility_code = (if ho_FacilityCode opts \<noteq> '''' then Some (ho_FacilityCode opts) else None),
                md_instance = \<lparr>inst_id = instanceID, inst_hostname = ho_Name opts,
                               inst_operating_system = None, inst_state = None\<rparr>\<rparr>,
             hs_interfaces =
               (if mac \<noteq> '''' then
                  [\<lparr>if_netboot = Some (netbootFor live),
                    if_dhcp = Some \<lparr>dhcp_mac = mac, dhcp_hostname = ho_Name opts, dhcp_ip = None\<rparr>\<rparr>]
                else []),
             hs_disks = driveDisks (Drives dev),
             hs_userData = None, hs_vendorData = None, hs_references = None, hs_resources = None,
             hs_tinkVersion = None\<rparr>
      in \<lparr>k_type = \<lparr>APIVersion = tink_group_version E, Kind = ''Hardware''\<rparr>,
          k_meta = meta_of (ho_Name opts) (ho_Namespace opts),
          k_body = BHardware spec\<rparr>)"

section \<open>Lemmas\<close>

lemma DesiredHardware_netboot_only:
  "DesiredHardware E dev opts (Some live) =
     (case k_body (DesiredHardware E dev opts None) of
        BHardware spec \<Rightarrow>
          (DesiredHardware E dev opts None)\<lparr>k_body := BHardware (spec\<lparr>hs_interfaces :=
             map (\<lambda>i. i\<lparr>if_netboot := Some (netbootFor (Some live))\<rparr>) (hs_interfaces spec)\<rparr>)\<rparr>
      | _ \<Rightarrow> DesiredHardware E dev opts None)"
  by (simp add: DesiredHardware_def Let_def)

text \<open>The fields that belong to other writers are unset.\<close>

definition sparse :: "kobj \<Rightarrow> bool" where
  "sparse obj =
     (case k_body obj of
        BHardware spec \<Rightarrow>
          hs_userData spec = None \<and> hs_vendorData spec = None \<and> hs_references spec = None \<and>
          hs_resources spec = None \<and> hs_tinkVersion spec = None \<and>
          (case hs_metadata spec of None \<Rightarrow> True
           | Some md \<Rightarrow> inst_operating_system (md_instance md) = None \<and> inst_state (md_instance md) = None)
      | _ \<Rightarrow> True)"

lemma sparse_meta [simp]: "sparse (obj\<lparr>k_meta := meta\<rparr>) = sparse obj"
  by (simp add: sparse_def)

lemma sparse_DesiredHardware [simp]: "sparse (DesiredHardware E dev opts live)"
  by (simp add: sparse_def DesiredHardware_def Let_def)

lemma driveDisks_nonempty: "'''' \<notin> set (driveDisks drives)"
  by (induction drives) (auto split: option.split)

end
