(* ===== verification/Syncing.thy ===== *)
theory Syncing
  imports Hardware_Mapping
begin

text \<open>
  \<open>internal/sync/syncer.go\<close>: writing the Secret, the Machine and the Hardware of a verified BMC. A
  write is a create or a server-side apply; every object is read first.
\<close>

section \<open>Definitions\<close>

record Syncer =
  sy_Namespace :: string
  InsecureTLS :: bool
  NameTemplate :: string
  FacilityCode :: string
  AutoEnrollment :: bool

text \<open>\<open>stampOwnership\<close>, which looks at the clock once.\<close>

definition stamped :: "time \<Rightarrow> Endpoint \<Rightarrow> kobj \<Rightarrow> kobj" where
  "stamped t ep obj =
     (let meta = k_meta obj
      in obj\<lparr>k_meta := meta\<lparr>
           om_labels := mput ManagedByLabel ManagedByValue (om_labels meta),
           om_annotations :=
             mput ServiceAnnotation (ep_Service ep) (mput InstanceAnnotation (ep_Instance ep)
               (mput LastSeenAnnotation (time_Format t) (om_annotations meta)))\<rparr>\<rparr>)"

definition stampOwnership :: "denv \<Rightarrow> kobj \<Rightarrow> Endpoint \<Rightarrow> kobj dprog" where
  "stampOwnership E obj ep = do {
     t \<leftarrow> call DNow (clock E);
     ret (stamped t ep obj)
   }"

definition applyConfigurationFor :: "denv \<Rightarrow> kobj \<Rightarrow> go_error + json" where
  "applyConfigurationFor E desired =
     (case to_unstructured E desired of
        Inl e \<Rightarrow> Inl (EWrap ''converting to apply configuration'' e)
      | Inr content \<Rightarrow>
          Inr (remove_nested E (remove_nested E content [''status'']) [''metadata'', ''creationTimestamp'']))"

text \<open>
  \<open>applyManaged\<close>. \<open>carry\<close> gets the live object and changes the desired one, which its closure shares with
  the caller.
\<close>

definition applyManaged ::
  "denv \<Rightarrow> gotype \<Rightarrow> kobj \<Rightarrow> Endpoint \<Rightarrow> (kobj \<Rightarrow> kobj \<Rightarrow> kobj) option \<Rightarrow> (go_error + unit) dprog" where
  "applyManaged E live_type desired0 ep carry = do {
     desired \<leftarrow> stampOwnership E desired0 ep;
     (let key = key_of (k_meta desired)
      in do {
        got \<leftarrow> call (DGet live_type key) (\<lambda>h. get_object E h live_type key);
        (case got of
           Inl e \<Rightarrow>
             if IsNotFound e then do {
               created \<leftarrow> call (DCreate desired FieldManager) (\<lambda>h. create_object E h desired);
               (case created of Some err \<Rightarrow> ret (Inl (EApi err)) | None \<Rightarrow> ret (Inr ()))
             }
             else ret (Inl (EApi e))
         | Inr live \<Rightarrow>
             if mget (om_labels (k_meta live)) ManagedByLabel \<noteq> ManagedByValue then ret (Inr ())
             else
               (let carried = (case carry of None \<Rightarrow> desired | Some f \<Rightarrow> f live desired);
                    final = carried\<lparr>k_meta := (k_meta carried)\<lparr>om_resourceVersion := om_resourceVersion (k_meta live)\<rparr>\<rparr>
                in case applyConfigurationFor E final of
                     Inl e \<Rightarrow> ret (Inl e)
                   | Inr payload \<Rightarrow> do {
                       applied \<leftarrow> call (DApply payload FieldManager True) (\<lambda>h. apply_object E h payload);
                       (case applied of Some err \<Rightarrow> ret (Inl (EApi err)) | None \<Rightarrow> ret (Inr ()))
                     }))
      })
   }"

text \<open>The closure \<open>carry\<close> of \<open>Sync\<close>.\<close>

definition carryNetboot :: "kobj \<Rightarrow> kobj \<Rightarrow> kobj" where
  "carryNetboot live hardware =
     (case (k_body live, k_body hardware) of
        (BHardware lh, BHardware spec) \<Rightarrow>
          (case hs_interfaces spec of
             [] \<Rightarrow> hardware
           | iface # ifaces \<Rightarrow>
               hardware\<lparr>k_body := BHardware (spec\<lparr>hs_interfaces :=
                 iface\<lparr>if_netboot := Some (netbootFor (Some lh))\<rparr> # ifaces\<rparr>)\<rparr>)
      | _ \<Rightarrow> hardware)"

definition syncName :: "denv \<Rightarrow> Syncer \<Rightarrow> Endpoint \<Rightarrow> Device \<Rightarrow> string" where
  "syncName E s ep dev =
     (let name = TemplateName (lower_table E) (NameTemplate s) ep dev
      in if name = '''' then ResourceName (lower_table E) ep else name)"

definition authName :: "string \<Rightarrow> string" where
  "authName name = name @ ''-bmc-auth''"

definition hardwareOptions :: "Syncer \<Rightarrow> string \<Rightarrow> HardwareOptions" where
  "hardwareOptions s name =
     \<lparr>ho_Name = name, ho_Namespace = sy_Namespace s, ho_FacilityCode = FacilityCode s,
      ho_AutoEnrollment = AutoEnrollment s\<rparr>"

definition Sync ::
  "denv \<Rightarrow> Syncer \<Rightarrow> Endpoint \<Rightarrow> Device option \<Rightarrow> Credentials \<Rightarrow> (go_error + unit) dprog" where
  "Sync E s ep dev_ptr creds =
     (case dev_ptr of
        None \<Rightarrow> ret (Inl (ENew ''refusing to sync without verified inventory''))
      | Some dev \<Rightarrow>
          (let name = syncName E s ep dev; auth = authName name; ns = sy_Namespace s
           in do {
             r1 \<leftarrow> applyManaged E TSecret (DesiredAuthSecret auth ns creds) ep None;
             (case r1 of
                Inl e \<Rightarrow> ret (Inl (EWrap (''syncing auth secret '' @ auth) e))
              | Inr _ \<Rightarrow> do {
                  r2 \<leftarrow> applyManaged E TMachine
                          (DesiredMachine E ep name ns (InsecureTLS s) \<lparr>sr_name = auth, sr_namespace = ns\<rparr>) ep None;
                  (case r2 of
                     Inl e \<Rightarrow> ret (Inl (EWrap (''syncing machine '' @ name) e))
                   | Inr _ \<Rightarrow> do {
                       r3 \<leftarrow> applyManaged E THardware (DesiredHardware E dev (hardwareOptions s name) None)
                               ep (Some carryNetboot);
                       (case r3 of
                          Inl e \<Rightarrow> ret (Inl (EWrap (''syncing hardware '' @ name) e))
                        | Inr _ \<Rightarrow> ret (Inr ()))
                     })
                })
           }))"

section \<open>One object: lemmas\<close>

definition managed :: "kobj \<Rightarrow> bool" where
  "managed obj = (mget (om_labels (k_meta obj)) ManagedByLabel = ManagedByValue)"

text \<open>The object a write of \<open>applyManaged\<close> sends over a live object.\<close>

definition applied_form :: "(kobj \<Rightarrow> kobj \<Rightarrow> kobj) option \<Rightarrow> kobj \<Rightarrow> kobj \<Rightarrow> kobj" where
  "applied_form carry live desired =
     (let carried = (case carry of None \<Rightarrow> desired | Some f \<Rightarrow> f live desired)
      in carried\<lparr>k_meta := (k_meta carried)\<lparr>om_resourceVersion := om_resourceVersion (k_meta live)\<rparr>\<rparr>)"

lemma applied_form_version [simp]:
  "om_resourceVersion (k_meta (applied_form carry live d)) = om_resourceVersion (k_meta live)"
  by (simp add: applied_form_def Let_def)

lemma key_of_stamped [simp]: "key_of (k_meta (stamped t ep obj)) = key_of (k_meta obj)"
  by (simp add: stamped_def key_of_def Let_def)

lemma managed_stamped [simp]: "managed (stamped t ep obj)"
  by (simp add: managed_def stamped_def Let_def)

lemma stamped_body [simp]: "k_body (stamped t ep obj) = k_body obj"
  by (simp add: stamped_def Let_def)

lemma sparse_stamped [simp]: "sparse (stamped t ep obj) = sparse obj"
  by (simp add: sparse_def)

lemma sparse_carryNetboot: "sparse hardware \<Longrightarrow> sparse (carryNetboot live hardware)"
  by (auto simp: carryNetboot_def sparse_def split: body.split list.split option.splits)

text \<open>\<open>applyManaged\<close> on every branch.\<close>

lemma wp_applyManaged:
  "wp (applyManaged E ty obj ep carry) Q s \<longleftrightarrow>
     (let t = clock E (hist s); d = stamped t ep obj; key = key_of (k_meta obj);
          h1 = hist s @ [DNow t]; got = get_object E h1 ty key; h2 = h1 @ [DGet ty key got]
      in case got of
           Inl NotFound \<Rightarrow>
             (let c = create_object E h2 d
              in Q (case c of None \<Rightarrow> Inr () | Some e \<Rightarrow> Inl (EApi e)) (s\<lparr>hist := h2 @ [DCreate d FieldManager c]\<rparr>))
         | Inl (ApiError e) \<Rightarrow> Q (Inl (EApi (ApiError e))) (s\<lparr>hist := h2\<rparr>)
         | Inr live \<Rightarrow>
             if \<not> managed live then Q (Inr ()) (s\<lparr>hist := h2\<rparr>)
             else (case applyConfigurationFor E (applied_form carry live d) of
                     Inl e \<Rightarrow> Q (Inl e) (s\<lparr>hist := h2\<rparr>)
                   | Inr payload \<Rightarrow>
                       (let a = apply_object E h2 payload
                        in Q (case a of None \<Rightarrow> Inr () | Some e \<Rightarrow> Inl (EApi e))
                             (s\<lparr>hist := h2 @ [DApply payload FieldManager True a]\<rparr>))))"
  unfolding applyManaged_def stampOwnership_def applied_form_def managed_def Let_def
  by (simp add: go_wp IsNotFound_def wp_case_sum split: sum.split api_error.split option.split)

text \<open>
  The write that fits the answer to the read before it: a creation when there was nothing, a forced
  apply over a managed object under its resource version.
\<close>

definition guarded_write ::
  "denv \<Rightarrow> Endpoint \<Rightarrow> kobj \<Rightarrow> (kobj \<Rightarrow> kobj \<Rightarrow> kobj) option \<Rightarrow> api_error + kobj \<Rightarrow> dobs \<Rightarrow> bool" where
  "guarded_write E ep obj carry got x =
     (case got of
        Inl e \<Rightarrow> e = NotFound \<and> (\<exists>t ans. x = DCreate (stamped t ep obj) FieldManager ans)
      | Inr live \<Rightarrow> managed live \<and>
          (\<exists>t payload ans. x = DApply payload FieldManager True ans \<and>
             applyConfigurationFor E (applied_form carry live (stamped t ep obj)) = Inr payload))"

text \<open>What justifies a write of one object: the read of that object directly before it.\<close>

definition managed_write ::
  "denv \<Rightarrow> Endpoint \<Rightarrow> gotype \<times> kobj \<times> (kobj \<Rightarrow> kobj \<Rightarrow> kobj) option \<Rightarrow> dobs list \<Rightarrow> dobs \<Rightarrow> bool" where
  "managed_write E ep item pre x =
     (case item of (ty, obj, carry) \<Rightarrow>
        \<exists>h got. pre = h @ [DGet ty (key_of (k_meta obj)) got] \<and> guarded_write E ep obj carry got x)"

definition write_ok ::
  "denv \<Rightarrow> Endpoint \<Rightarrow> (gotype \<times> kobj \<times> (kobj \<Rightarrow> kobj \<Rightarrow> kobj) option) list \<Rightarrow> dobs list \<Rightarrow> dobs \<Rightarrow> bool" where
  "write_ok E ep plan pre x = (is_dwrite x \<longrightarrow> (\<exists>item \<in> set plan. managed_write E ep item pre x))"

lemma justifies_applyManaged:
  assumes "(ty, obj, carry) \<in> set plan"
  shows "justifies (write_ok E ep plan) (applyManaged E ty obj ep carry)"
proof (rule obeysI)
  fix s
  show "wp (applyManaged E ty obj ep carry) (\<lambda>_. just_rel (write_ok E ep plan) s) s"
    using assms
    by (auto simp: wp_applyManaged Let_def just_rel_def write_ok_def managed_write_def guarded_write_def
          split: sum.split api_error.split intro!: bexI [of _ "(ty, obj, carry)"])
qed

section \<open>The three objects: lemmas\<close>

definition sync_plan ::
  "denv \<Rightarrow> Syncer \<Rightarrow> Endpoint \<Rightarrow> Device \<Rightarrow> Credentials \<Rightarrow>
    (gotype \<times> kobj \<times> (kobj \<Rightarrow> kobj \<Rightarrow> kobj) option) list" where
  "sync_plan E s ep dev creds =
     (let name = syncName E s ep dev; auth = authName name; ns = sy_Namespace s
      in [(TSecret, DesiredAuthSecret auth ns creds, None),
          (TMachine, DesiredMachine E ep name ns (InsecureTLS s) \<lparr>sr_name = auth, sr_namespace = ns\<rparr>, None),
          (THardware, DesiredHardware E dev (hardwareOptions s name) None, Some carryNetboot)])"

lemma justifies_Sync: "justifies (write_ok E ep (sync_plan E s ep dev creds)) (Sync E s ep (Some dev) creds)"
  unfolding Sync_def option.case Let_def
  by (intro justifies_rules justifies_applyManaged)
     (auto simp: sync_plan_def Let_def)

lemma Sync_nil: "Sync E s ep None creds = ret (Inl (ENew ''refusing to sync without verified inventory''))"
  by (simp add: Sync_def)

text \<open>The objects read, in order.\<close>

fun get_type :: "dobs \<Rightarrow> gotype list" where
  "get_type (DGet ty _ _) = [ty]"
| "get_type _ = []"

definition gets :: "dobs list \<Rightarrow> gotype list" where
  "gets h = concat (map get_type h)"

text \<open>
  Where a history must stop: a failed answer is its last entry and makes the result an error; after the read of a managed object either the apply
  follows, or nothing does and the result is an error (the conversion has failed); nothing else is an error.
\<close>

fun failed_answer :: "dobs \<Rightarrow> bool" where
  "failed_answer (DGet _ _ (Inl e)) = (e \<noteq> NotFound)"
| "failed_answer (DCreate _ _ ans) = (ans \<noteq> None)"
| "failed_answer (DApply _ _ _ ans) = (ans \<noteq> None)"
| "failed_answer _ = False"

fun shows_managed :: "dobs \<Rightarrow> bool" where
  "shows_managed (DGet _ _ (Inr live)) = managed live"
| "shows_managed _ = False"

fun is_apply :: "dobs \<Rightarrow> bool" where
  "is_apply (DApply _ _ _ _) = True"
| "is_apply _ = False"

fun stops_at_error :: "bool \<Rightarrow> dobs list \<Rightarrow> bool" where
  "stops_at_error ok [] = ok"
| "stops_at_error ok (x # xs) =
     (if failed_answer x then xs = [] \<and> \<not> ok
      else if shows_managed x then (if xs = [] then \<not> ok else is_apply (hd xs) \<and> stops_at_error ok xs)
      else stops_at_error ok xs)"

lemma stops_append: "stops_at_error True xs \<Longrightarrow> stops_at_error ok (xs @ ys) = stops_at_error ok ys"
proof (induction xs)
  case (Cons x xs)
  show ?case
  proof (cases "failed_answer x \<or> shows_managed x")
    case True
    with Cons.prems have "shows_managed x" "\<not> failed_answer x" "xs \<noteq> []" "is_apply (hd xs)" "stops_at_error True xs"
      by (auto split: if_split_asm)
    with Cons.IH show ?thesis by simp
  next
    case False
    with Cons show ?thesis by simp
  qed
qed simp

text \<open>A stretch of history that reads \<open>tys\<close> and stops at the first error.\<close>

definition stretch :: "gotype list \<Rightarrow> dstate \<Rightarrow> go_error + unit \<Rightarrow> dstate \<Rightarrow> bool" where
  "stretch tys s r t =
     (\<exists>new. hist t = hist s @ new \<and> gets new = tys \<and> stops_at_error (r = Inr ()) new)"

lemma stretch_hist:
  "stretch tys s r (s\<lparr>hist := hist s @ new\<rparr>) = (gets new = tys \<and> stops_at_error (r = Inr ()) new)"
  by (simp add: stretch_def)

lemma stretch_applyManaged: "wp (applyManaged E ty obj ep carry) (stretch [ty] s) s"
  by (simp add: wp_applyManaged Let_def stretch_hist gets_def split: sum.split api_error.split option.split)

lemma stretch_trans:
  "stretch tys s (Inr ()) t \<Longrightarrow> stretch tys' t r v \<Longrightarrow> stretch (tys @ tys') s r v"
  by (auto simp: stretch_def gets_def stops_append)

text \<open>\<open>Sync\<close> goes through its plan in order and stops at the first error.\<close>

fun runPlan ::
  "denv \<Rightarrow> Endpoint \<Rightarrow> (gotype \<times> kobj \<times> (kobj \<Rightarrow> kobj \<Rightarrow> kobj) option) list \<Rightarrow> (go_error + unit) dprog" where
  "runPlan E ep [] = ret (Inr ())"
| "runPlan E ep ((ty, obj, carry) # plan) = do {
     r \<leftarrow> applyManaged E ty obj ep carry;
     (case r of Inl e \<Rightarrow> ret (Inl e) | Inr _ \<Rightarrow> runPlan E ep plan)
   }"

lemma run_Sync:
  "snd (run_state (Sync E s ep (Some dev) creds) w) = snd (run_state (runPlan E ep (sync_plan E s ep dev creds)) w) \<and>
   (fst (run_state (Sync E s ep (Some dev) creds) w) = Inr () \<longleftrightarrow>
    fst (run_state (runPlan E ep (sync_plan E s ep dev creds)) w) = Inr ())"
  by (simp add: Sync_def sync_plan_def Let_def split: prod.split sum.split)

lemma wp_runPlan:
  "wp (runPlan E ep plan)
     (\<lambda>r t. \<exists>tys. stretch tys s r t \<and> prefix tys (map fst plan) \<and> (r = Inr () \<longrightarrow> tys = map fst plan)) s"
proof (induction plan arbitrary: s)
  case Nil
  show ?case by (auto simp: go_wp stretch_def gets_def)
next
  case (Cons item plan)
  obtain ty obj carry where item: "item = (ty, obj, carry)" by (cases item)
  let ?Q = "\<lambda>r t. \<exists>tys. stretch tys s r t \<and> prefix tys (map fst (item # plan)) \<and>
              (r = Inr () \<longrightarrow> tys = map fst (item # plan))"
  have ok: "wp (runPlan E ep plan) ?Q t" if "stretch [ty] s (Inr ()) t" for t
  proof (rule wp_mono [OF Cons.IH], elim exE conjE)
    fix r v tys
    assume "stretch tys t r v" and "prefix tys (map fst plan)" and "r = Inr () \<longrightarrow> tys = map fst plan"
    with stretch_trans [OF that] show "?Q r v"
      by (intro exI [of _ "ty # tys"]) (auto simp: item)
  qed
  have err: "?Q (Inl e) t" if "stretch [ty] s (Inl e) t" for e t
    using that by (auto simp: item intro!: exI [of _ "[ty]"])
  show ?case
    unfolding item runPlan.simps wp_bind
  proof (rule wp_mono [OF stretch_applyManaged])
    fix a t assume "stretch [ty] s a t"
    then show "wp (case a of Inl e \<Rightarrow> ret (Inl e) | Inr _ \<Rightarrow> runPlan E ep plan)
         (\<lambda>r t. \<exists>tys. stretch tys s r t \<and> prefix tys (map fst ((ty, obj, carry) # plan)) \<and>
              (r = Inr () \<longrightarrow> tys = map fst ((ty, obj, carry) # plan))) t"
      using ok err by (cases a) (auto simp: wp_return item)
  qed
qed

lemma map_fst_sync_plan [simp]: "map fst (sync_plan E s ep dev creds) = [TSecret, TMachine, THardware]"
  by (simp add: sync_plan_def Let_def)

lemma wp_Sync_order:
  "wp (Sync E s ep (Some dev) creds)
     (\<lambda>r t. \<exists>tys. stretch tys w r t \<and> prefix tys [TSecret, TMachine, THardware] \<and>
        (r = Inr () \<longrightarrow> tys = [TSecret, TMachine, THardware])) w"
proof (rule wpI)
  fix r t assume run: "run_state (Sync E s ep (Some dev) creds) w = (r, t)"
  obtain r' where r': "run_state (runPlan E ep (sync_plan E s ep dev creds)) w = (r', t)"
      and iff: "r = Inr () \<longleftrightarrow> r' = Inr ()"
    using run_Sync [of E s ep dev creds w] run by (metis fst_conv prod.collapse snd_conv)
  from wp_run [OF r' wp_runPlan] show
    "\<exists>tys. stretch tys w r t \<and> prefix tys [TSecret, TMachine, THardware] \<and>
        (r = Inr () \<longrightarrow> tys = [TSecret, TMachine, THardware])"
    by (auto simp: iff stretch_def)
qed

section \<open>Against a store: lemmas\<close>

text \<open>
  An API server that keeps objects by type and key, answers reads from what it keeps and takes every
  write. What a server-side apply makes of the kept objects is its own affair (\<open>srv\<close>).
\<close>

type_synonym kstore = "gotype \<times> ObjectKey \<Rightarrow> kobj option"

fun take_write :: "(json \<Rightarrow> kstore \<Rightarrow> kstore) \<Rightarrow> dobs \<Rightarrow> kstore \<Rightarrow> kstore" where
  "take_write srv (DCreate obj _ None) \<sigma> = \<sigma>((body_type (k_body obj), key_of (k_meta obj)) \<mapsto> obj)"
| "take_write srv (DApply payload _ _ None) \<sigma> = srv payload \<sigma>"
| "take_write srv _ \<sigma> = \<sigma>"

definition store_at :: "(json \<Rightarrow> kstore \<Rightarrow> kstore) \<Rightarrow> kstore \<Rightarrow> dobs list \<Rightarrow> kstore" where
  "store_at srv \<sigma> h = fold (take_write srv) h \<sigma>"

definition serves :: "denv \<Rightarrow> (json \<Rightarrow> kstore \<Rightarrow> kstore) \<Rightarrow> kstore \<Rightarrow> bool" where
  "serves E srv \<sigma> =
     ((\<forall>h ty key. get_object E h ty key =
        (case store_at srv \<sigma> h (ty, key) of None \<Rightarrow> Inl NotFound | Some obj \<Rightarrow> Inr obj)) \<and>
      (\<forall>h obj. create_object E h obj = None) \<and> (\<forall>h payload. apply_object E h payload = None))"

text \<open>
  The abstract operation: create what is missing, leave what is not managed, apply over the rest.
\<close>

definition upsert ::
  "denv \<Rightarrow> (json \<Rightarrow> kstore \<Rightarrow> kstore) \<Rightarrow> gotype \<times> kobj \<times> (kobj \<Rightarrow> kobj \<Rightarrow> kobj) option \<Rightarrow> kstore \<Rightarrow> kstore" where
  "upsert E srv item \<sigma> =
     (case item of (ty, desired, carry) \<Rightarrow>
        case \<sigma> (ty, key_of (k_meta desired)) of
          None \<Rightarrow> \<sigma>((body_type (k_body desired), key_of (k_meta desired)) \<mapsto> desired)
        | Some live \<Rightarrow>
            if managed live then
              (case applyConfigurationFor E (applied_form carry live desired) of
                 Inl _ \<Rightarrow> \<sigma> | Inr payload \<Rightarrow> srv payload \<sigma>)
            else \<sigma>)"

definition at_time ::
  "time \<Rightarrow> Endpoint \<Rightarrow> gotype \<times> kobj \<times> (kobj \<Rightarrow> kobj \<Rightarrow> kobj) option \<Rightarrow>
   gotype \<times> kobj \<times> (kobj \<Rightarrow> kobj \<Rightarrow> kobj) option" where
  "at_time t ep item = (case item of (ty, obj, carry) \<Rightarrow> (ty, stamped t ep obj, carry))"

lemma refine_applyManaged:
  assumes "serves E srv \<sigma>" and "\<And>obj. \<exists>j. to_unstructured E obj = Inr j"
  shows "wp (applyManaged E ty obj ep carry)
     (\<lambda>r w'. r = Inr () \<and> (\<exists>t. store_at srv \<sigma> (hist w') =
        upsert E srv (at_time t ep (ty, obj, carry)) (store_at srv \<sigma> (hist w)))) w"
proof -
  have conv: "\<exists>j. applyConfigurationFor E obj = Inr j" for obj
    using assms(2) [of obj] by (auto simp: applyConfigurationFor_def)
  have get: "get_object E (hist w @ [DNow t]) ty key =
      (case store_at srv \<sigma> (hist w) (ty, key) of None \<Rightarrow> Inl NotFound | Some obj \<Rightarrow> Inr obj)" for t key
    using assms(1) by (simp add: serves_def store_at_def)
  show ?thesis
  proof (cases "store_at srv \<sigma> (hist w) (ty, key_of (k_meta obj))")
    case None
    then show ?thesis
      using assms(1)
      by (auto simp: wp_applyManaged Let_def get serves_def store_at_def upsert_def at_time_def
            intro!: exI [of _ "clock E (hist w)"])
  next
    case (Some live)
    obtain j where j: "applyConfigurationFor E
        (applied_form carry live (stamped (clock E (hist w)) ep obj)) = Inr j"
      using conv by blast
    from Some show ?thesis
      using assms(1)
      by (auto simp: wp_applyManaged Let_def get j serves_def store_at_def upsert_def at_time_def
            intro!: exI [of _ "clock E (hist w)"])
  qed
qed

lemma refine_runPlan:
  assumes "serves E srv \<sigma>" and "\<And>obj. \<exists>j. to_unstructured E obj = Inr j"
  shows "wp (runPlan E ep plan)
     (\<lambda>r w'. r = Inr () \<and> (\<exists>ts. length ts = length plan \<and>
        store_at srv \<sigma> (hist w') =
          fold (upsert E srv) (map2 (\<lambda>t. at_time t ep) ts plan) (store_at srv \<sigma> (hist w)))) w"
proof (induction plan arbitrary: w)
  case Nil
  show ?case by (simp add: wp_return)
next
  case (Cons item plan)
  obtain ty obj carry where item: "item = (ty, obj, carry)" by (cases item)
  show ?case
    unfolding item runPlan.simps wp_bind
  proof (rule wp_mono [OF refine_applyManaged [OF assms]], elim conjE exE)
    fix t and a :: "go_error + unit" and w1 :: dstate
    assume a: "a = Inr ()" and w1: "store_at srv \<sigma> (hist w1) =
        upsert E srv (at_time t ep (ty, obj, carry)) (store_at srv \<sigma> (hist w))"
    have "wp (runPlan E ep plan)
       (\<lambda>r w'. r = Inr () \<and> (\<exists>ts. length ts = length ((ty, obj, carry) # plan) \<and>
          store_at srv \<sigma> (hist w') =
            fold (upsert E srv) (map2 (\<lambda>t. at_time t ep) ts ((ty, obj, carry) # plan)) (store_at srv \<sigma> (hist w)))) w1"
    proof (rule wp_mono [OF Cons.IH], elim conjE exE, intro conjI)
      fix r ts and w' :: dstate
      assume "length ts = length plan" and "store_at srv \<sigma> (hist w') =
          fold (upsert E srv) (map2 (\<lambda>t. at_time t ep) ts plan) (store_at srv \<sigma> (hist w1))"
      then show "\<exists>ts. length ts = length ((ty, obj, carry) # plan) \<and> store_at srv \<sigma> (hist w') =
            fold (upsert E srv) (map2 (\<lambda>t. at_time t ep) ts ((ty, obj, carry) # plan)) (store_at srv \<sigma> (hist w))"
        by (intro exI [of _ "t # ts"]) (simp add: w1)
    qed
    with a show "wp (case a of Inl e \<Rightarrow> ret (Inl e) | Inr _ \<Rightarrow> runPlan E ep plan)
       (\<lambda>r w'. r = Inr () \<and> (\<exists>ts. length ts = length ((ty, obj, carry) # plan) \<and>
          store_at srv \<sigma> (hist w') =
            fold (upsert E srv) (map2 (\<lambda>t. at_time t ep) ts ((ty, obj, carry) # plan)) (store_at srv \<sigma> (hist w)))) w1"
      by simp
  qed
qed

section \<open>In a larger program: lemmas\<close>

lemma under_applyManaged:
  assumes "stable A" and "(ty, obj, carry) \<in> set plan"
    and "\<And>h x. A h \<Longrightarrow> write_ok E ep plan h x \<Longrightarrow> J h x"
  shows "obeys (under_rel A J) (applyManaged E ty obj ep carry)"
proof (rule obeysI)
  fix s
  have Jw: "J h x" if "A h" and "managed_write E ep (ty, obj, carry) h x" for h x
    using that assms(2) by (intro assms(3)) (auto simp: write_ok_def)
  have Jr: "J h x" if "A h" and "\<not> is_dwrite x" for h x
    using that by (intro assms(3)) (simp_all add: write_ok_def)
  have st: "A h \<Longrightarrow> A (h @ [x])" for h x
    using assms(1) by (simp add: stable_def)
  have A1: "A h \<Longrightarrow> A (h @ [x])" "A h \<Longrightarrow> A (h @ [x, y])" "A h \<Longrightarrow> A (h @ [x, y, z])" for h x y z
    using st [of h x] st [of "h @ [x]" y] st [of "h @ [x, y]" z] by simp_all
  show "wp (applyManaged E ty obj ep carry) (\<lambda>_. under_rel A J s) s"
    by (auto simp: wp_applyManaged Let_def under_rel_def A1 Jr split: sum.split api_error.split intro!: Jw)
       (auto simp: managed_write_def guarded_write_def)
qed

lemma under_Sync:
  assumes "stable A"
    and "\<And>h x. A h \<Longrightarrow> write_ok E ep (sync_plan E s ep dev creds) h x \<Longrightarrow> J h x"
  shows "obeys (under_rel A J) (Sync E s ep (Some dev) creds)"
  unfolding Sync_def option.case Let_def
  by (intro under_rules under_applyManaged [where plan = "sync_plan E s ep dev creds"] assms)
     (auto simp: sync_plan_def Let_def)

text \<open>
  Changing the netboot of the built Hardware in place gives what building it with the live Hardware
  gives.
\<close>

lemma carryNetboot_DesiredHardware:
  "k_body live = BHardware lh \<Longrightarrow>
   carryNetboot live (stamped t ep (DesiredHardware E dev opts None)) = stamped t ep (DesiredHardware E dev opts (Some lh))"
  by (simp add: carryNetboot_def DesiredHardware_def Let_def stamped_def)

text \<open>What is sent of the objects of a sync: no foreign field, the default netboot values or the live ones.\<close>

lemma plan_sent:
  assumes "(ty, obj, carry) \<in> set (sync_plan E s ep dev creds)"
  shows "sparse (stamped t ep obj)"
    and "k_body (stamped t ep obj) = BHardware spec \<Longrightarrow> list_all (\<lambda>i. if_netboot i =
       Some \<lparr>AllowPXE = Some True, AllowWorkflow = Some True, nb_ipxe = None, nb_osie = None\<rparr>) (hs_interfaces spec)"
    and "sparse (applied_form carry live (stamped t ep obj)) \<and>
       key_of (k_meta (applied_form carry live (stamped t ep obj))) = key_of (k_meta obj)"
    and "ty = THardware \<Longrightarrow> k_body live = BHardware lh \<Longrightarrow> hs_interfaces lh = i # rest \<Longrightarrow> if_netboot i = Some n \<Longrightarrow>
       \<exists>spec. k_body (applied_form carry live (stamped t ep obj)) = BHardware spec \<and>
         list_all (\<lambda>i. if_netboot i = Some n) (hs_interfaces spec) \<and>
         (hs_interfaces spec = [] \<longrightarrow> PrimaryMAC (lower_table E) dev = '''')"
proof -
  let ?opts = "hardwareOptions s (syncName E s ep dev)"
  have key: "key_of (k_meta (applied_form None live d)) = key_of (k_meta d)"
    "key_of (k_meta (applied_form (Some carryNetboot) live d)) = key_of (k_meta d)" for d
    by (auto simp: applied_form_def Let_def key_of_def carryNetboot_def split: body.split list.split)
  from assms consider "ty = TSecret" "carry = None" "\<exists>d. k_body obj = BSecret d"
    | "ty = TMachine" "carry = None" "\<exists>c. k_body obj = BMachine c"
    | "ty = THardware" "carry = Some carryNetboot" "obj = DesiredHardware E dev ?opts None"
    by (auto simp: sync_plan_def Let_def DesiredAuthSecret_def DesiredMachine_def)
  note kinds = this
  show "sparse (stamped t ep obj)"
    by (rule kinds) (auto simp: sparse_def [of obj])
  show "list_all (\<lambda>i. if_netboot i =
       Some \<lparr>AllowPXE = Some True, AllowWorkflow = Some True, nb_ipxe = None, nb_osie = None\<rparr>) (hs_interfaces spec)"
    if "k_body (stamped t ep obj) = BHardware spec"
    by (rule kinds) (use that in \<open>auto simp: DesiredHardware_def Let_def netbootFor_def defaultNetboot_def\<close>)
  show "sparse (applied_form carry live (stamped t ep obj)) \<and>
       key_of (k_meta (applied_form carry live (stamped t ep obj))) = key_of (k_meta obj)"
  proof (rule kinds)
    assume "carry = Some carryNetboot" and "obj = DesiredHardware E dev ?opts None"
    then show ?thesis
      using sparse_carryNetboot [of "stamped t ep obj" live] by (simp add: key) (simp add: applied_form_def Let_def)
  qed (auto simp: key, auto simp: applied_form_def sparse_def Let_def)
  show "\<exists>spec. k_body (applied_form carry live (stamped t ep obj)) = BHardware spec \<and>
         list_all (\<lambda>i. if_netboot i = Some n) (hs_interfaces spec) \<and>
         (hs_interfaces spec = [] \<longrightarrow> PrimaryMAC (lower_table E) dev = '''')"
    if "ty = THardware" "k_body live = BHardware lh" "hs_interfaces lh = i # rest" "if_netboot i = Some n"
  proof (rule kinds)
    assume "carry = Some carryNetboot" and obj: "obj = DesiredHardware E dev ?opts None"
    then show ?thesis
      using that(3,4) unfolding applied_form_def Let_def \<open>carry = _\<close> obj option.case carryNetboot_DesiredHardware [OF that(2)]
      by (auto simp: DesiredHardware_def Let_def netbootFor_def)
  qed (use that in auto)
qed

end
