(* ===== verification/Inventory.thy ===== *)
theory Inventory
  imports Discovery_World "HOL-Library.Multiset"
begin

text \<open>
  \<open>internal/inventory\<close>: collecting the inventory of a BMC (\<open>collector.go\<close>) and parsing the
  default credentials (\<open>defaults.go\<close>). Logging is left out except where its arguments
  dereference a pointer.
\<close>

section \<open>collector.go\<close>

record BMCLibCollector =
  Timeout :: duration

definition newBMCClient :: "denv \<Rightarrow> Endpoint \<Rightarrow> Credentials \<Rightarrow> bmc_client" where
  "newBMCClient E ep creds =
     (let host = Addr_String (ep_IP ep);
          drivers = filter (\<lambda>name. name \<noteq> ''ipmitool'') (registered E host)
      in \<lparr>bc_host = host, bc_username = Username creds, bc_password = Password creds,
          bc_redfishPort = Itoa (ep_Port ep), bc_useBasicAuth = True,
          bc_drivers = prefer_driver E ''gofish'' drivers\<rparr>)"

definition nicHasMAC :: "NIC \<Rightarrow> bool" where
  "nicHasMAC nic = list_ex (\<lambda>port. case port of None \<Rightarrow> False | Some p \<Rightarrow> MacAddress p \<noteq> '''') (NICPorts nic)"

definition hasNICMAC :: "Device \<Rightarrow> bool" where
  "hasNICMAC dev = list_ex (\<lambda>nic. case nic of None \<Rightarrow> False | Some n \<Rightarrow> nicHasMAC n) (NICs dev)"

text \<open>The NICs appended for the interfaces of one system.\<close>

fun ifaceNICs :: "EthernetInterface list \<Rightarrow> NIC option list" where
  "ifaceNICs [] = []"
| "ifaceNICs (iface # ifaces) =
     (let mac = (if PermanentMACAddress iface = '''' then ei_MACAddress iface else PermanentMACAddress iface)
      in if mac = '''' then ifaceNICs ifaces
         else Some \<lparr>nic_ID = ei_ID iface, NICPorts = [Some \<lparr>MacAddress = mac\<rparr>]\<rparr> # ifaceNICs ifaces)"

fun enrichSystems :: "denv \<Rightarrow> redfish_config \<Rightarrow> string list \<Rightarrow> Device \<Rightarrow> Device dprog" where
  "enrichSystems E cfg [] dev = ret dev"
| "enrichSystems E cfg (system # systems) dev = do {
     r \<leftarrow> call (DEthernet cfg system) (\<lambda>h. redfish_ethernet E h cfg system);
     (case r of
        Inl _ \<Rightarrow> enrichSystems E cfg systems dev
      | Inr ifaces \<Rightarrow> enrichSystems E cfg systems (dev\<lparr>NICs := NICs dev @ ifaceNICs ifaces\<rparr>))
   }"

definition redfishConfig :: "Endpoint \<Rightarrow> Credentials \<Rightarrow> redfish_config" where
  "redfishConfig ep creds =
     \<lparr>rf_endpoint = ''https://'' @ JoinHostPort (Addr_String (ep_IP ep)) (Itoa (ep_Port ep)),
      rf_username = Username creds, rf_password = Password creds, rf_insecure = True, rf_basicAuth = True\<rparr>"

text \<open>\<open>enrichNICs\<close> on a pointer: the device behind it afterwards.\<close>

definition enrichNICs ::
  "denv \<Rightarrow> BMCLibCollector \<Rightarrow> Endpoint \<Rightarrow> Credentials \<Rightarrow> Device option \<Rightarrow> Device option dprog" where
  "enrichNICs E c ep creds dev_ptr =
     (case dev_ptr of
        None \<Rightarrow> ret None
      | Some dev \<Rightarrow>
          if hasNICMAC dev then ret (Some dev)
          else
            (let cfg = redfishConfig ep creds
             in do {
               conn \<leftarrow> call (DConnect cfg (Timeout c)) (\<lambda>h. redfish_connect E h cfg (Timeout c));
               (case conn of
                  Some _ \<Rightarrow> ret (Some dev)
                | None \<Rightarrow> do {
                    sys \<leftarrow> call (DSystems cfg) (\<lambda>h. redfish_systems E h cfg);
                    dev' \<leftarrow> (case sys of Inl _ \<Rightarrow> ret dev | Inr systems \<Rightarrow> enrichSystems E cfg systems dev);
                    _ \<leftarrow> emit (DLogout cfg);
                    ret (Some dev')
                  })
             }))"

text \<open>
  \<open>Collect\<close>. The log line after the enrichment reads fields of the device, so a nil device is a
  panic there; the deferred \<open>Close\<close> runs on every path after the open, the panic included.
\<close>

definition Collect_BMC ::
  "denv \<Rightarrow> BMCLibCollector \<Rightarrow> Endpoint \<Rightarrow> Credentials \<Rightarrow> (go_error + Device option) dprog" where
  "Collect_BMC E c ep creds =
     (let client = newBMCClient E ep creds; ip = Addr_String (ep_IP ep)
      in do {
        opened \<leftarrow> call (DOpen client (Timeout c)) (\<lambda>h. open_bmc E h client (Timeout c));
        (case opened of
           Some err \<Rightarrow> ret (Inl (EWrap (''opening BMC connection to '' @ ip) err))
         | None \<Rightarrow> do {
             inv \<leftarrow> call (DInventory client (Timeout c)) (\<lambda>h. inventory E h client (Timeout c));
             res \<leftarrow> (case inv of
                Inl err \<Rightarrow> ret (Inl (EWrap (''collecting inventory from '' @ ip) err))
              | Inr dev_ptr \<Rightarrow> do {
                  dev_ptr' \<leftarrow> enrichNICs E c ep creds dev_ptr;
                  (case dev_ptr' of None \<Rightarrow> ret (Inl NilDeref) | Some dev \<Rightarrow> ret (Inr (Some dev)))
                });
             _ \<leftarrow> emit (DClose client);
             ret res
           })
      })"

section \<open>defaults.go\<close>

definition WildcardService :: string where
  "WildcardService = ''*''"

text \<open>The message, with the entry as it stands (\<open>%q\<close> quotes it).\<close>

definition badEntry :: "string \<Rightarrow> go_error" where
  "badEntry entry =
     ENew (''default credentials entry '' @ entry @ '': want <service>=<username>:<password>'')"

text \<open>One entry of the list.\<close>

definition parseEntry :: "string \<Rightarrow> go_error + string \<times> Credentials" where
  "parseEntry entry =
     (case Cut entry (CHR ''='') of (service, cred, ok) \<Rightarrow>
        if \<not> ok then Inl (badEntry entry)
        else (case Cut cred (CHR '':'') of (username, password, ok) \<Rightarrow>
           if \<not> ok \<or> service = '''' \<or> username = '''' \<or> password = '''' then Inl (badEntry entry)
           else Inr (service, \<lparr>Username = username, Password = password\<rparr>)))"

fun parseEntries :: "string list \<Rightarrow> (string \<times> Credentials) list \<Rightarrow> go_error + (string \<times> Credentials) list" where
  "parseEntries [] defaults = Inr defaults"
| "parseEntries (entry # entries) defaults =
     (case parseEntry entry of
        Inl e \<Rightarrow> Inl e
      | Inr (service, creds) \<Rightarrow> parseEntries entries (mput service creds defaults))"

definition ParseDefaults :: "string \<Rightarrow> go_error + (string \<times> Credentials) list" where
  "ParseDefaults s = (if s = '''' then Inr [] else parseEntries (Split s (CHR '','')) [])"

section \<open>Collecting: lemmas\<close>

text \<open>A NIC that the enrichment adds: one port, with a MAC.\<close>

definition macNIC :: "NIC option \<Rightarrow> bool" where
  "macNIC nic = (\<exists>i mac. nic = Some \<lparr>nic_ID = i, NICPorts = [Some \<lparr>MacAddress = mac\<rparr>]\<rparr> \<and> mac \<noteq> '''')"

text \<open>\<open>dev'\<close> is \<open>dev\<close> with NICs appended, none when \<open>dev\<close> has a MAC already.\<close>

definition enriched :: "Device \<Rightarrow> Device \<Rightarrow> bool" where
  "enriched dev dev' =
     (\<exists>extra. dev' = dev\<lparr>NICs := NICs dev @ extra\<rparr> \<and> list_all macNIC extra \<and> (hasNICMAC dev \<longrightarrow> extra = []))"

lemma enriched_refl [simp]: "enriched dev dev"
  by (auto simp: enriched_def intro: exI [of _ "[]"])

lemma macNIC_ifaceNICs: "list_all macNIC (ifaceNICs ifaces)"
  by (induction ifaces) (auto simp: macNIC_def Let_def)

lemma hasNICMAC_enriched:
  "hasNICMAC (dev\<lparr>NICs := NICs dev @ extra\<rparr>) \<longleftrightarrow> hasNICMAC dev \<or> extra \<noteq> []" if "list_all macNIC extra"
  using that by (cases extra) (auto simp: hasNICMAC_def macNIC_def nicHasMAC_def)

lemma wp_enrichSystems:
  "wp (enrichSystems E cfg systems dev)
     (\<lambda>dev' _. \<exists>extra. dev' = dev\<lparr>NICs := NICs dev @ extra\<rparr> \<and> list_all macNIC extra) s"
proof (induction systems arbitrary: dev s)
  case Nil
  show ?case by (simp add: go_wp, rule exI [of _ "[]"], simp)
next
  case (Cons system systems)
  have "wp (enrichSystems E cfg systems (dev\<lparr>NICs := NICs dev @ ifaceNICs ifaces\<rparr>))
     (\<lambda>dev' _. \<exists>extra. dev' = dev\<lparr>NICs := NICs dev @ extra\<rparr> \<and> list_all macNIC extra) t" for ifaces t
  proof (rule wp_mono [OF Cons.IH], elim exE conjE)
    fix dev' extra
    assume "dev' = dev\<lparr>NICs := NICs dev @ ifaceNICs ifaces\<rparr>
                 \<lparr>NICs := NICs (dev\<lparr>NICs := NICs dev @ ifaceNICs ifaces\<rparr>) @ extra\<rparr>"
      and "list_all macNIC extra"
    then show "\<exists>extra. dev' = dev\<lparr>NICs := NICs dev @ extra\<rparr> \<and> list_all macNIC extra"
      by (intro exI [of _ "ifaceNICs ifaces @ extra"]) (simp add: macNIC_ifaceNICs)
  qed
  with Cons.IH show ?case by (simp add: go_wp split: sum.split)
qed

lemma wp_enrichNICs:
  "wp (enrichNICs E c ep creds (Some dev)) (\<lambda>r _. \<exists>dev'. r = Some dev' \<and> enriched dev dev') s"
proof -
  have sys: "wp (enrichSystems E cfg systems dev)
     (\<lambda>dev' t. wp (State_Monad.bind (emit (DLogout cfg)) (\<lambda>_. ret (Some dev')))
        (\<lambda>r _. \<exists>dev'. r = Some dev' \<and> enriched dev dev') t) t" if "\<not> hasNICMAC dev" for cfg systems t
    by (rule wp_mono [OF wp_enrichSystems]) (use that in \<open>auto simp: go_wp enriched_def\<close>)
  show ?thesis
    by (auto simp: enrichNICs_def go_wp Let_def split: option.split sum.split intro!: sys)
qed

lemma emits_enrichSystems: "emits is_bmc (enrichSystems E cfg systems dev)"
  by (induction systems arbitrary: dev) (auto intro!: go_effect)

lemma emits_Collect: "emits is_bmc (Collect_BMC E c ep creds)"
  unfolding Collect_BMC_def enrichNICs_def Let_def
  by (auto intro!: go_effect emits_enrichSystems)

definition collect_outcome ::
  "denv \<Rightarrow> BMCLibCollector \<Rightarrow> Endpoint \<Rightarrow> Credentials \<Rightarrow> dobs list \<Rightarrow> go_error + Device option \<Rightarrow> bool" where
  "collect_outcome E c ep creds h r =
     (let client = newBMCClient E ep creds; ip = Addr_String (ep_IP ep)
      in case open_bmc E h client (Timeout c) of
           Some err \<Rightarrow> r = Inl (EWrap (''opening BMC connection to '' @ ip) err)
         | None \<Rightarrow>
             (case inventory E (h @ [DOpen client (Timeout c) None]) client (Timeout c) of
                Inl err \<Rightarrow> r = Inl (EWrap (''collecting inventory from '' @ ip) err)
              | Inr None \<Rightarrow> r = Inl NilDeref
              | Inr (Some dev) \<Rightarrow> \<exists>dev'. r = Inr (Some dev') \<and> enriched dev dev'))"

lemma wp_Collect: "wp (Collect_BMC E c ep creds) (\<lambda>r _. collect_outcome E c ep creds (hist s) r) s"
proof -
  have rest: "wp (enrichNICs E c ep creds p)
      (\<lambda>a. wp (case a of None \<Rightarrow> ret (Inl NilDeref) | Some dev \<Rightarrow> ret (Inr (Some dev)))
         (\<lambda>res. wp (State_Monad.bind (emit (DClose client)) (\<lambda>_. ret res))
            (\<lambda>r _. case p of None \<Rightarrow> r = Inl NilDeref
                   | Some dev \<Rightarrow> \<exists>dev'. r = Inr (Some dev') \<and> enriched dev dev'))) t" for p client t
  proof (cases p)
    case None
    then show ?thesis by (simp add: enrichNICs_def go_wp)
  next
    case (Some dev)
    show ?thesis unfolding Some by (rule wp_mono [OF wp_enrichNICs]) (auto simp: go_wp)
  qed
  show ?thesis
    unfolding Collect_BMC_def collect_outcome_def Let_def
    by (auto simp: go_wp intro!: rest split: option.split sum.split)
qed

text \<open>Sessions opened and sessions closed in a stretch of history.\<close>

datatype session = BmcSession bmc_client | RedfishSession redfish_config

fun session_open :: "dobs \<Rightarrow> session option" where
  "session_open (DOpen client _ None) = Some (BmcSession client)"
| "session_open (DConnect cfg _ None) = Some (RedfishSession cfg)"
| "session_open _ = None"

fun session_close :: "dobs \<Rightarrow> session option" where
  "session_close (DClose client) = Some (BmcSession client)"
| "session_close (DLogout cfg) = Some (RedfishSession cfg)"
| "session_close _ = None"

definition sessions_balanced :: "dobs list \<Rightarrow> bool" where
  "sessions_balanced h =
     (mset (List.map_filter session_open h) = mset (List.map_filter session_close h))"

fun is_ethernet :: "dobs \<Rightarrow> bool" where
  "is_ethernet (DEthernet _ _ _) = True"
| "is_ethernet _ = False"

lemma map_filter_ethernet:
  "list_all is_ethernet h \<Longrightarrow> List.map_filter session_open h = [] \<and> List.map_filter session_close h = []"
proof (induction h)
  case (Cons x h)
  then show ?case by (cases x) (auto simp: List.map_filter_simps)
qed (simp add: List.map_filter_simps)

lemma map_filter_append [simp]:
  "List.map_filter f (xs @ ys) = List.map_filter f xs @ List.map_filter f ys"
  by (simp add: List.map_filter_def)

lemma ethernet_enrichSystems: "emits is_ethernet (enrichSystems E cfg systems dev)"
  by (induction systems arbitrary: dev) (auto intro!: go_effect)

lemma wp_ethernet:
  "wp (enrichSystems E cfg systems dev)
     (\<lambda>_ t. \<exists>new. hist t = hist s @ new \<and> list_all is_ethernet new) s"
  by (rule wp_mono [OF obeys_wp [OF ethernet_enrichSystems]]) (simp add: emits_rel_def)

lemma sessions_balanced_simps [simp]:
  "sessions_balanced []"
  "sessions_balanced (DConnect cfg d (Some e) # h) = sessions_balanced h"
  "sessions_balanced (DSystems cfg r # h) = sessions_balanced h"
  "sessions_balanced (DOpen client d (Some e) # h) = sessions_balanced h"
  "sessions_balanced (DInventory client d i # h) = sessions_balanced h"
  "sessions_balanced (DOpen client d None # h @ [DClose client]) = sessions_balanced h"
  "sessions_balanced (DConnect cfg d None # h @ [DLogout cfg]) = sessions_balanced h"
  "sessions_balanced [DConnect cfg d None, DSystems cfg r, DLogout cfg]"
  by (simp_all add: sessions_balanced_def List.map_filter_simps)

lemma sessions_balanced_ethernet: "list_all is_ethernet h \<Longrightarrow> sessions_balanced h"
  by (simp add: sessions_balanced_def map_filter_ethernet)

lemma wp_enrichNICs_balanced:
  "wp (enrichNICs E c ep creds dev_ptr)
     (\<lambda>_ t. \<exists>new. hist t = hist s @ new \<and> sessions_balanced new) s"
proof -
  have sys: "wp (enrichSystems E cfg systems dev)
     (\<lambda>dev'. wp (State_Monad.bind (emit (DLogout cfg)) (\<lambda>_. ret (Some dev')))
        (\<lambda>_ t. \<exists>new. hist t = hist s @ new \<and> sessions_balanced new))
     (s\<lparr>hist := hist s @ [DConnect cfg d None, DSystems cfg r]\<rparr>)" for cfg systems dev d r
  proof (rule wp_mono [OF wp_ethernet], elim exE conjE)
    fix dev' t new
    assume "hist t = hist (s\<lparr>hist := hist s @ [DConnect cfg d None, DSystems cfg r]\<rparr>) @ new"
      and "list_all is_ethernet new"
    then show "wp (State_Monad.bind (emit (DLogout cfg)) (\<lambda>_. ret (Some dev')))
        (\<lambda>_ t. \<exists>new. hist t = hist s @ new \<and> sessions_balanced new) t"
      using sessions_balanced_simps(7) [of cfg d "DSystems cfg r # new"]
      by (simp add: go_wp sessions_balanced_ethernet)
  qed
  show ?thesis
    by (auto simp: enrichNICs_def go_wp Let_def
          split: option.split sum.split intro!: sys)
qed

lemma wp_Collect_balanced:
  "wp (Collect_BMC E c ep creds) (\<lambda>_ t. \<exists>new. hist t = hist s @ new \<and> sessions_balanced new) s"
proof -
  let ?client = "newBMCClient E ep creds"
  have rest: "wp (enrichNICs E c ep creds p)
      (\<lambda>a. wp (case a of None \<Rightarrow> ret (Inl NilDeref) | Some dev \<Rightarrow> ret (Inr (Some dev)))
         (\<lambda>res. wp (State_Monad.bind (emit (DClose ?client)) (\<lambda>_. ret res))
            (\<lambda>_ t. \<exists>new. hist t = hist s @ new \<and> sessions_balanced new)))
      (s\<lparr>hist := hist s @ [DOpen ?client d None, DInventory ?client d i]\<rparr>)" for p d i
  proof (rule wp_mono [OF wp_enrichNICs_balanced], elim exE conjE)
    fix a t new
    assume t: "hist t = hist (s\<lparr>hist := hist s @ [DOpen ?client d None, DInventory ?client d i]\<rparr>) @ new"
      and "sessions_balanced new"
    then have "sessions_balanced (DOpen ?client d None # DInventory ?client d i # new @ [DClose ?client])"
      using sessions_balanced_simps(6) [of ?client d "DInventory ?client d i # new"] by simp
    with t show "wp (case a of None \<Rightarrow> ret (Inl NilDeref) | Some dev \<Rightarrow> ret (Inr (Some dev)))
         (\<lambda>res. wp (State_Monad.bind (emit (DClose ?client)) (\<lambda>_. ret res))
            (\<lambda>_ t. \<exists>new. hist t = hist s @ new \<and> sessions_balanced new)) t"
      by (auto simp: go_wp split: option.split)
  qed
  have fail: "sessions_balanced [DOpen ?client d None, DInventory ?client d i, DClose ?client]" for d i
    using sessions_balanced_simps(6) [of ?client d "[DInventory ?client d i]"] by simp
  show ?thesis
    by (auto simp: Collect_BMC_def go_wp Let_def fail split: option.split sum.split intro!: rest)
qed

text \<open>The drivers a BMC is tried with.\<close>

lemma newBMCClient_drivers:
  assumes "\<And>n ds. set (prefer_driver E n ds) = set ds"
  shows "set (bc_drivers (newBMCClient E ep creds)) = set (registered E (Addr_String (ep_IP ep))) - {''ipmitool''}"
  by (auto simp: newBMCClient_def Let_def assms)

section \<open>Default credentials: lemmas\<close>

text \<open>An entry as it is written, and what may be written in one.\<close>

definition printEntry :: "string \<times> Credentials \<Rightarrow> string" where
  "printEntry d = fst d @ ''='' @ Username (snd d) @ '':'' @ Password (snd d)"

definition printDefaults :: "(string \<times> Credentials) list \<Rightarrow> string" where
  "printDefaults ds = Join (map printEntry ds) (CHR '','')"

definition printable :: "string \<times> Credentials \<Rightarrow> bool" where
  "printable d =
     (fst d \<noteq> '''' \<and> CHR ''='' \<notin> set (fst d) \<and> CHR '','' \<notin> set (fst d) \<and>
      Username (snd d) \<noteq> '''' \<and> CHR '':'' \<notin> set (Username (snd d)) \<and> CHR '','' \<notin> set (Username (snd d)) \<and>
      Password (snd d) \<noteq> '''' \<and> CHR '','' \<notin> set (Password (snd d)))"

lemma parseEntry_printEntry: "printable d \<Longrightarrow> parseEntry (printEntry d) = Inr d"
  by (cases d) (auto simp: printable_def printEntry_def parseEntry_def Cut_found)

text \<open>An entry is accepted exactly when it is the print of something printable.\<close>

lemma parseEntry_Inr_iff:
  assumes "CHR '','' \<notin> set entry"
  shows "parseEntry entry = Inr d \<longleftrightarrow> printable d \<and> entry = printEntry d"
proof
  assume "parseEntry entry = Inr d"
  then obtain service cred username password where
    c: "Cut entry (CHR ''='') = (service, cred, True)" "Cut cred (CHR '':'') = (username, password, True)"
    and ne: "service \<noteq> ''''" "username \<noteq> ''''" "password \<noteq> ''''"
    and d: "d = (service, \<lparr>Username = username, Password = password\<rparr>)"
    by (auto simp: parseEntry_def split: prod.splits if_splits)
  from Cut_found_rev [OF c(1)] Cut_found_rev [OF c(2)] ne d assms
  show "printable d \<and> entry = printEntry d"
    by (auto simp: printable_def printEntry_def)
qed (simp add: parseEntry_printEntry)

lemma parseEntries_ok:
  "list_all (\<lambda>e. \<exists>d. parseEntry e = Inr d) entries \<Longrightarrow>
   parseEntries entries defaults =
     Inr (fold (\<lambda>e m. case parseEntry e of Inl _ \<Rightarrow> m | Inr (k, v) \<Rightarrow> mput k v m) entries defaults)"
  by (induction entries arbitrary: defaults) auto

lemma parseEntries_Inl_iff:
  "(\<exists>e. parseEntries entries defaults = Inl e) \<longleftrightarrow> (\<exists>entry \<in> set entries. \<exists>e. parseEntry entry = Inl e)"
  by (induction entries arbitrary: defaults) (auto split: sum.split)

lemma mput_fresh: "k \<notin> fst ` set m \<Longrightarrow> mput k v m = m @ [(k, v)]"
  by (induction m) (auto simp: mput_def)

lemma parseEntries_print:
  "list_all printable ds \<Longrightarrow> distinct (map fst (m @ ds)) \<Longrightarrow> parseEntries (map printEntry ds) m = Inr (m @ ds)"
proof (induction ds arbitrary: m)
  case (Cons d ds)
  obtain k v where d: "d = (k, v)" by (cases d)
  have "mput k v m = m @ [d]"
    using Cons.prems(2) by (auto simp: d intro!: mput_fresh)
  with Cons show ?case by (simp add: parseEntry_printEntry d)
qed simp

lemma ParseDefaults_print:
  assumes "list_all printable ds" and "distinct (map fst ds)"
  shows "ParseDefaults (printDefaults ds) = Inr ds"
proof (cases "ds = []")
  case False
  have nc: "CHR '','' \<notin> set w" if "w \<in> set (map printEntry ds)" for w
    using that assms(1) by (auto simp: list_all_iff printable_def printEntry_def)
  have "Split (printDefaults ds) (CHR '','') = map printEntry ds"
    unfolding printDefaults_def by (rule Split_Join) (use False nc in auto)
  moreover have "printDefaults ds \<noteq> ''''"
  proof
    assume e: "printDefaults ds = ''''"
    with calculation obtain d where "ds = [d]" "printEntry d = ''''"
      by (auto simp: map_eq_Cons_conv)
    then show False by (simp add: printEntry_def)
  qed
  ultimately show ?thesis
    using parseEntries_print [of ds "[]"] assms by (simp add: ParseDefaults_def)
qed (simp add: printDefaults_def ParseDefaults_def)

section \<open>The bmclib collector as a collector\<close>

text \<open>
  A session with these credentials was opened, and gave an inventory that the device enriches.
\<close>

definition bmc_evidence ::
  "denv \<Rightarrow> BMCLibCollector \<Rightarrow> Endpoint \<Rightarrow> Credentials \<Rightarrow> Device \<Rightarrow> dobs list \<Rightarrow> bool" where
  "bmc_evidence E c ep creds dev h =
     (let client = newBMCClient E ep creds
      in DOpen client (Timeout c) None \<in> set h \<and>
         (\<exists>dev0. DInventory client (Timeout c) (Inr (Some dev0)) \<in> set h \<and> enriched dev0 dev))"

lemma wp_Collect_evidence:
  "wp (Collect_BMC E c ep creds) (\<lambda>r t. \<forall>dev. r = Inr (Some dev) \<longrightarrow> bmc_evidence E c ep creds dev (hist t)) s"
proof -
  let ?client = "newBMCClient E ep creds"
  let ?s = "\<lambda>inv. s\<lparr>hist := hist s @ [DOpen ?client (Timeout c) None, DInventory ?client (Timeout c) (Inr inv)]\<rparr>"
  have rest: "wp (enrichNICs E c ep creds p)
      (\<lambda>a. wp (case a of None \<Rightarrow> ret (Inl NilDeref) | Some dev \<Rightarrow> ret (Inr (Some dev)))
         (\<lambda>res. wp (State_Monad.bind (emit (DClose ?client)) (\<lambda>_. ret res))
            (\<lambda>r t. \<forall>dev. r = Inr (Some dev) \<longrightarrow> bmc_evidence E c ep creds dev (hist t)))) (?s p)" for p
  proof (cases p)
    case None
    then show ?thesis by (simp add: enrichNICs_def go_wp)
  next
    case (Some dev0)
    show ?thesis unfolding Some
    proof (rule wp_mono [OF wp_conj [OF wp_enrichNICs wp_enrichNICs_balanced]], elim conjE exE)
      fix a t dev new
      assume "a = Some dev" and "enriched dev0 dev" and "hist t = hist (?s (Some dev0)) @ new"
      then show "wp (case a of None \<Rightarrow> ret (Inl NilDeref) | Some dev \<Rightarrow> ret (Inr (Some dev)))
         (\<lambda>res. wp (State_Monad.bind (emit (DClose ?client)) (\<lambda>_. ret res))
            (\<lambda>r t. \<forall>dev. r = Inr (Some dev) \<longrightarrow> bmc_evidence E c ep creds dev (hist t))) t"
        by (auto simp: go_wp bmc_evidence_def Let_def)
    qed
  qed
  show ?thesis
    unfolding Collect_BMC_def Let_def
    by (auto simp: go_wp intro!: rest split: option.split sum.split)
qed

interpretation bmclib: collector "Collect_BMC E c" "bmc_evidence E c"
proof unfold_locales
  show "emits is_bmc (Collect_BMC E c ep creds)" for ep creds by (rule emits_Collect)
  show "wp (Collect_BMC E c ep creds) (\<lambda>r t. \<forall>dev. r = Inr (Some dev) \<longrightarrow> bmc_evidence E c ep creds dev (hist t)) s"
    for ep creds s by (rule wp_Collect_evidence)
  show "stable (bmc_evidence E c ep creds dev)" for ep creds dev
    by (auto simp: stable_def bmc_evidence_def Let_def)
qed

end
