(* ===== verification/Worker_Model.thy ===== *)
theory Worker_Model
  imports Syncing Inventory
begin

text \<open>
  \<open>internal/controller/worker.go\<close>: the worker that takes discovered endpoints, verifies them and
  syncs their resources. The collector is an interface in the code and an argument (\<open>collect\<close>) here.
  The loop of \<open>Start\<close>, the browser and \<open>processQueue\<close> run concurrently: they are the steps of
  \<open>wstep\<close>, one per critical section or queue operation, to the end of the context and of \<open>processQueue\<close>.
  The work queue of client-go is an argument (\<open>Q\<close>); \<open>queue_laws\<close> states what its documentation promises.
\<close>

section \<open>Candidates\<close>

record Worker =
  w_Syncer :: Syncer
  CredentialsSecret :: ObjectKey
  DefaultCredentials :: "(string \<times> Credentials) list"
  ResyncInterval :: duration
  RedfishPort :: int

definition NeedLeaderElection :: "Worker \<Rightarrow> bool" where
  "NeedLeaderElection w = True"

record credentialCandidate =
  cc_creds :: Credentials
  cc_source :: string

definition addCandidate :: "Credentials \<Rightarrow> string \<Rightarrow> credentialCandidate list \<Rightarrow> credentialCandidate list" where
  "addCandidate creds source candidates =
     (if list_ex (\<lambda>existing. cc_creds existing = creds) candidates then candidates
      else candidates @ [\<lparr>cc_creds = creds, cc_source = source\<rparr>])"

definition secretData :: "kobj \<Rightarrow> smap" where
  "secretData obj = (case k_body obj of BSecret d \<Rightarrow> d | _ \<Rightarrow> [])"

text \<open>What the answer for the credentials Secret contributes.\<close>

definition secretCandidates :: "api_error + kobj \<Rightarrow> credentialCandidate list" where
  "secretCandidates got =
     (case got of
        Inr secret \<Rightarrow>
          (let username = mget (secretData secret) ''username''; password = mget (secretData secret) ''password''
           in if username \<noteq> '''' \<and> password \<noteq> ''''
              then addCandidate \<lparr>Username = username, Password = password\<rparr> ''secret'' []
              else [])
      | Inl e \<Rightarrow> [])"

definition defaultCandidates ::
  "(string \<times> Credentials) list \<Rightarrow> string \<Rightarrow> credentialCandidate list \<Rightarrow> credentialCandidate list" where
  "defaultCandidates defaults service candidates =
     (let c1 = (case map_of defaults service of Some creds \<Rightarrow> addCandidate creds ''service default'' candidates
                | None \<Rightarrow> candidates)
      in case map_of defaults WildcardService of Some creds \<Rightarrow> addCandidate creds ''global default'' c1
         | None \<Rightarrow> c1)"

definition credentialCandidates :: "denv \<Rightarrow> Worker \<Rightarrow> Endpoint \<Rightarrow> credentialCandidate list dprog" where
  "credentialCandidates E w ep = do {
     got \<leftarrow> call (DGet TSecret (CredentialsSecret w)) (\<lambda>h. get_object E h TSecret (CredentialsSecret w));
     ret (defaultCandidates (DefaultCredentials w) (ep_Service ep) (secretCandidates got))
   }"

section \<open>Handling one endpoint\<close>

type_synonym collect = "Endpoint \<Rightarrow> Credentials \<Rightarrow> (go_error + Device option) dprog"

text \<open>
  The outcome of the candidate loop: a device with the credentials that gave it, no success
  with the last error, or a panic (of the collector, or on the fields of a nil device).
\<close>

datatype verification = Verified Device Credentials | Unverified "go_error option" | Panicked

fun tryCandidates ::
  "collect \<Rightarrow> Endpoint \<Rightarrow> credentialCandidate list \<Rightarrow> go_error option \<Rightarrow> verification dprog" where
  "tryCandidates collect ep [] lastErr = ret (Unverified lastErr)"
| "tryCandidates collect ep (candidate # candidates) lastErr = do {
     res \<leftarrow> collect ep (cc_creds candidate);
     (case res of
        Inl err \<Rightarrow> if err = NilDeref then ret Panicked else tryCandidates collect ep candidates (Some err)
      | Inr None \<Rightarrow> ret Panicked
      | Inr (Some dev) \<Rightarrow> ret (Verified dev (cc_creds candidate)))
   }"

definition overridePort :: "Worker \<Rightarrow> Endpoint \<Rightarrow> Endpoint" where
  "overridePort w ep = (if RedfishPort w \<noteq> 0 then ep\<lparr>ep_Port := RedfishPort w\<rparr> else ep)"

text \<open>\<open>handle\<close> after the endpoint has been looked up.\<close>

definition handleEndpoint :: "denv \<Rightarrow> Worker \<Rightarrow> collect \<Rightarrow> Endpoint \<Rightarrow> (go_error + unit) dprog" where
  "handleEndpoint E w collect known_ep =
     (let ep = overridePort w known_ep
      in do {
        candidates \<leftarrow> credentialCandidates E w ep;
        (if candidates = [] then ret (Inl (ENew ''no credentials available''))
         else do {
           v \<leftarrow> tryCandidates collect ep candidates None;
           (case v of
              Panicked \<Rightarrow> ret (Inl NilDeref)
            | Unverified lastErr \<Rightarrow> ret (case lastErr of None \<Rightarrow> Inr () | Some e \<Rightarrow> Inl e)
            | Verified dev creds \<Rightarrow> Sync E (w_Syncer w) ep (Some dev) creds)
         })
      })"

definition handle ::
  "denv \<Rightarrow> Worker \<Rightarrow> collect \<Rightarrow> (string \<times> Endpoint) list \<Rightarrow> string \<Rightarrow> (go_error + unit) dprog" where
  "handle E w collect known key =
     (case map_of known key of None \<Rightarrow> ret (Inr ()) | Some ep \<Rightarrow> handleEndpoint E w collect ep)"

section \<open>The running worker\<close>

text \<open>
  The operations of the work queue. \<open>q_due\<close> is no call of the code but the queue's own: the delay of a key
  (\<open>AddRateLimited\<close>) runs out, at a time of the queue's choice.
  The answer of \<open>Get\<close>: none yet (it blocks), a key, or \<open>shutdown\<close>.\<close>

datatype 'q get_result = Blocks | Item string 'q | IsShutDown

record 'q queue_ops =
  q_add :: "string \<Rightarrow> 'q \<Rightarrow> 'q"
  q_get :: "'q \<Rightarrow> 'q get_result"
  q_addRateLimited :: "string \<Rightarrow> 'q \<Rightarrow> 'q"
  q_forget :: "string \<Rightarrow> 'q \<Rightarrow> 'q"
  q_done :: "string \<Rightarrow> 'q \<Rightarrow> 'q"
  q_shutDown :: "'q \<Rightarrow> 'q"
  q_due :: "string \<Rightarrow> 'q \<Rightarrow> 'q"

text \<open>
  The documented behaviour of the queue, over whether it is open and the finitely many keys it still owes
  (waiting, delayed, or added while they are processed and so due again after \<open>Done\<close>). \<open>Get\<close> delivers a
  key it owes; it may owe this key still, when it is delayed as well. A queue that was shut down ignores additions, may
  drop delayed keys, delivers each remaining key once, and its \<open>Get\<close> no longer blocks. A witness after client-go
  is \<open>delaying_queue\<close> of \<open>Discovery_Scenario\<close>.
\<close>

definition queue_laws :: "'q queue_ops \<Rightarrow> ('q \<Rightarrow> bool) \<Rightarrow> ('q \<Rightarrow> string set) \<Rightarrow> bool" where
  "queue_laws Q open_q owed =
     ((\<forall>q. finite (owed q)) \<and>
      (\<forall>k q. open_q (q_add Q k q) = open_q q \<and> owed (q_add Q k q) = (if open_q q then insert k (owed q) else owed q)) \<and>
      (\<forall>k q. open_q (q_addRateLimited Q k q) = open_q q \<and>
         owed (q_addRateLimited Q k q) = (if open_q q then insert k (owed q) else owed q)) \<and>
      (\<forall>k q. open_q (q_forget Q k q) = open_q q \<and> owed (q_forget Q k q) = owed q) \<and>
      (\<forall>k q. open_q (q_done Q k q) = open_q q \<and> owed (q_done Q k q) = owed q) \<and>
      (\<forall>q. \<not> open_q (q_shutDown Q q) \<and> owed (q_shutDown Q q) \<subseteq> owed q) \<and>
      (\<forall>k q. open_q (q_due Q k q) = open_q q \<and> owed (q_due Q k q) = owed q) \<and>
      (\<forall>q k q'. q_get Q q = Item k q' \<longrightarrow> k \<in> owed q \<and> owed q - {k} \<subseteq> owed q' \<and> owed q' \<subseteq> owed q \<and>
         open_q q' = open_q q \<and> (\<not> open_q q \<longrightarrow> k \<notin> owed q')) \<and>
      (\<forall>q. q_get Q q = IsShutDown \<longrightarrow> \<not> open_q q) \<and>
      (\<forall>q. q_get Q q = Blocks \<longrightarrow> open_q q))"

text \<open>
  Where \<open>processQueue\<close> stands: waiting for a key, holding one, handling what the lookup under
  the mutex gave, or returned.
\<close>

datatype pc = Idle | Got string | Handling string "Endpoint option" | Exited

text \<open>
  \<open>adding\<close> lists the keys a case of the \<open>select\<close> in \<open>Start\<close> has still to add to the queue; \<open>stopped\<close> says that \<open>Start\<close>
  has returned; \<open>ended\<close> lists the endpoints handled so far with their success, newest first.
\<close>

record 'q wstate =
  known :: "(string \<times> Endpoint) list"
  queue :: 'q
  adding :: "string list"
  stopped :: bool
  at :: pc
  outside :: dstate
  ended :: "(string \<times> Endpoint option \<times> bool) list"

definition wstart :: "'q \<Rightarrow> dstate \<Rightarrow> 'q wstate" where
  "wstart q w = \<lparr>known = [], queue = q, adding = [], stopped = False, at = Idle, outside = w, ended = []\<rparr>"

text \<open>
  The cases of the \<open>select\<close> in \<open>Start\<close>, up to their calls of \<open>queue.Add\<close>, which \<open>pushKey\<close> makes one by one;
  a tick visits the known keys in any order. The end of the context runs the deferred \<open>ShutDown\<close>.
\<close>

definition onEvent :: "Endpoint \<Rightarrow> 'q wstate \<Rightarrow> 'q wstate" where
  "onEvent ep s = s\<lparr>known := mput (Key ep) ep (known s), adding := [Key ep]\<rparr>"

definition onTick :: "string list \<Rightarrow> 'q wstate \<Rightarrow> 'q wstate" where
  "onTick keys s = s\<lparr>adding := keys\<rparr>"

definition pushKey :: "'q queue_ops \<Rightarrow> 'q wstate \<Rightarrow> 'q wstate" where
  "pushKey Q s = s\<lparr>queue := q_add Q (hd (adding s)) (queue s), adding := tl (adding s)\<rparr>"

definition onDone :: "'q queue_ops \<Rightarrow> 'q wstate \<Rightarrow> 'q wstate" where
  "onDone Q s = s\<lparr>queue := q_shutDown Q (queue s), stopped := True\<rparr>"

text \<open>The end of an iteration of \<open>processQueue\<close>.\<close>

definition finishKey :: "'q queue_ops \<Rightarrow> string \<Rightarrow> go_error + unit \<Rightarrow> 'q \<Rightarrow> 'q" where
  "finishKey Q key res q =
     q_done Q key (case res of Inl err \<Rightarrow> q_addRateLimited Q key q | Inr _ \<Rightarrow> q_forget Q key q)"

text \<open>
  \<open>handle\<close> splits at its critical section: \<open>Lookup\<close> reads the map, \<open>Finish\<close> does the rest. A panic ends
  the process, so it is no step. \<open>Due\<close> is a step of the queue. \<open>events\<close> are the endpoints the browser sends.
\<close>

definition handleFound :: "denv \<Rightarrow> Worker \<Rightarrow> collect \<Rightarrow> Endpoint option \<Rightarrow> (go_error + unit) dprog" where
  "handleFound E w collect found =
     (case found of None \<Rightarrow> ret (Inr ()) | Some ep \<Rightarrow> handleEndpoint E w collect ep)"

inductive wstep ::
  "denv \<Rightarrow> Worker \<Rightarrow> collect \<Rightarrow> 'q queue_ops \<Rightarrow> Endpoint set \<Rightarrow> 'q wstate \<Rightarrow> 'q wstate \<Rightarrow> bool"
  for E w collect Q events where
  Event: "\<not> stopped s \<Longrightarrow> adding s = [] \<Longrightarrow> ep \<in> events \<Longrightarrow> wstep E w collect Q events s (onEvent ep s)"
| Tick: "\<not> stopped s \<Longrightarrow> adding s = [] \<Longrightarrow> distinct keys \<Longrightarrow> set keys = fst ` set (known s) \<Longrightarrow>
    wstep E w collect Q events s (onTick keys s)"
| Push: "adding s \<noteq> [] \<Longrightarrow> wstep E w collect Q events s (pushKey Q s)"
| Due: "\<not> stopped s \<Longrightarrow> wstep E w collect Q events s (s\<lparr>queue := q_due Q key (queue s)\<rparr>)"
| Done: "\<not> stopped s \<Longrightarrow> adding s = [] \<Longrightarrow> wstep E w collect Q events s (onDone Q s)"
| Get: "at s = Idle \<Longrightarrow> q_get Q (queue s) = Item key q \<Longrightarrow>
    wstep E w collect Q events s (s\<lparr>queue := q, at := Got key\<rparr>)"
| Exit: "at s = Idle \<Longrightarrow> q_get Q (queue s) = IsShutDown \<Longrightarrow>
    wstep E w collect Q events s (s\<lparr>at := Exited\<rparr>)"
| Lookup: "at s = Got key \<Longrightarrow>
    wstep E w collect Q events s (s\<lparr>at := Handling key (map_of (known s) key)\<rparr>)"
| Finish: "at s = Handling key found \<Longrightarrow>
    run_state (handleFound E w collect found) (outside s) = (res, outside') \<Longrightarrow> res \<noteq> Inl NilDeref \<Longrightarrow>
    wstep E w collect Q events s (s\<lparr>queue := finishKey Q key res (queue s), at := Idle, outside := outside',
      ended := (key, found, res = Inr ()) # ended s\<rparr>)"

inductive reaches ::
  "denv \<Rightarrow> Worker \<Rightarrow> collect \<Rightarrow> 'q queue_ops \<Rightarrow> Endpoint set \<Rightarrow> 'q wstate \<Rightarrow> 'q wstate \<Rightarrow> bool"
  for E w collect Q events s where
  Start: "reaches E w collect Q events s s"
| Step: "reaches E w collect Q events s t \<Longrightarrow> wstep E w collect Q events t v \<Longrightarrow>
    reaches E w collect Q events s v"

inductive_cases wstepE: "wstep E w collect Q events s t"

section \<open>Candidates: lemmas\<close>

lemma handle_split: "handle E w collect m key = handleFound E w collect (map_of m key)"
  by (simp add: handle_def handleFound_def)

lemma addCandidate_creds:
  "map cc_creds (addCandidate creds source cs) =
     (if creds \<in> set (map cc_creds cs) then map cc_creds cs else map cc_creds cs @ [creds])"
  by (auto simp: addCandidate_def list_ex_iff)

text \<open>The chain in order of preference, before duplicates are dropped.\<close>

definition chain :: "Worker \<Rightarrow> string \<Rightarrow> api_error + kobj \<Rightarrow> Credentials list" where
  "chain w service got =
     map cc_creds (secretCandidates got) @
     (case map_of (DefaultCredentials w) service of None \<Rightarrow> [] | Some c \<Rightarrow> [c]) @
     (case map_of (DefaultCredentials w) WildcardService of None \<Rightarrow> [] | Some c \<Rightarrow> [c])"

lemma candidates_chain:
  "map cc_creds (defaultCandidates (DefaultCredentials w) service (secretCandidates got)) = firsts [] (chain w service got)"
proof -
  have s: "map cc_creds (secretCandidates got) = firsts [] (map cc_creds (secretCandidates got))"
    by (auto simp: secretCandidates_def addCandidate_def firsts_def Let_def split: sum.split)
  have add: "map cc_creds (addCandidate c src cs) = firsts (map cc_creds cs) [c]" for c src cs
    by (simp add: addCandidate_creds firsts_def)
  have nil: "firsts xs [] = xs" for xs :: "Credentials list"
    by (simp add: firsts_def)
  show ?thesis
    by (auto simp: defaultCandidates_def Let_def chain_def add firsts_append s [symmetric] nil split: option.split)
qed

lemma distinct_firsts: "distinct acc \<Longrightarrow> distinct (firsts acc xs)"
  by (induction xs arbitrary: acc) (auto simp: firsts_def)

section \<open>The running worker: lemmas\<close>

text \<open>An endpoint is filed under its own key.\<close>

definition filed :: "(string \<times> Endpoint) list \<Rightarrow> bool" where
  "filed m = (wf_map m \<and> (\<forall>k ep. map_of m k = Some ep \<longrightarrow> Key ep = k))"

text \<open>Nothing handled, owed or about to be added is unknown.\<close>

definition owes_known :: "('q \<Rightarrow> string set) \<Rightarrow> 'q wstate \<Rightarrow> bool" where
  "owes_known owed s =
     (owed (queue s) \<union> set (adding s) \<subseteq> fst ` set (known s) \<and>
      (case at s of
         Idle \<Rightarrow> True
       | Got k \<Rightarrow> k \<in> fst ` set (known s)
       | Handling k found \<Rightarrow> k \<in> fst ` set (known s) \<and> found \<noteq> None
       | Exited \<Rightarrow> stopped s))"

text \<open>The queue is open as long as \<open>Start\<close> runs, and \<open>Start\<close> returns with nothing left to add.\<close>

definition open_while_running :: "('q \<Rightarrow> bool) \<Rightarrow> 'q wstate \<Rightarrow> bool" where
  "open_while_running open_q s = (open_q (queue s) = (\<not> stopped s) \<and> (stopped s \<longrightarrow> adding s = []))"

text \<open>
  An endpoint as last advertised is owed or about to be, is being handled, or was handled last, with success.
\<close>

definition taken_care :: "('q \<Rightarrow> string set) \<Rightarrow> 'q wstate \<Rightarrow> string \<Rightarrow> Endpoint \<Rightarrow> bool" where
  "taken_care owed s k ep =
     (k \<in> owed (queue s) \<union> set (adding s) \<or> at s = Got k \<or> at s = Handling k (Some ep) \<or>
      (map_of (ended s) k = Some (Some ep, True) \<and> (\<forall>found. at s \<noteq> Handling k found)))"

text \<open>All endpoints known or being handled are of the set \<open>P\<close>.\<close>

definition from_events :: "Endpoint set \<Rightarrow> 'q wstate \<Rightarrow> bool" where
  "from_events P s =
     ((\<forall>k ep. map_of (known s) k = Some ep \<longrightarrow> ep \<in> P) \<and>
      (\<forall>k ep. at s = Handling k (Some ep) \<longrightarrow> ep \<in> P))"

definition worker_inv :: "('q \<Rightarrow> bool) \<Rightarrow> ('q \<Rightarrow> string set) \<Rightarrow> 'q wstate \<Rightarrow> bool" where
  "worker_inv open_q owed s =
     (filed (known s) \<and> owes_known owed s \<and> open_while_running open_q s \<and>
      (\<not> stopped s \<longrightarrow> (\<forall>k ep. map_of (known s) k = Some ep \<longrightarrow> taken_care owed s k ep)))"

lemmas worker_inv_defs = worker_inv_def owes_known_def open_while_running_def taken_care_def

lemma fst_mput: "fst ` set (mput k v m) = insert k (fst ` set m)"
proof -
  have "k' \<in> fst ` set (mput k v m) \<longleftrightarrow> k' = k \<or> k' \<in> fst ` set m" for k'
    using mhas_mput [of k v m k'] by (simp only: mhas_iff_fst)
  then show ?thesis by blast
qed

lemma queue_laws_simps:
  assumes "queue_laws Q open_q owed"
  shows "finite (owed q)"
    and "open_q (q_add Q k q) = open_q q" and "owed (q_add Q k q) = (if open_q q then insert k (owed q) else owed q)"
    and "\<not> open_q (q_shutDown Q q)" and "owed (q_shutDown Q q) \<subseteq> owed q"
    and "open_q (finishKey Q k res q) = open_q q"
    and "open_q (q_due Q k q) = open_q q" and "owed (q_due Q k q) = owed q"
    and "owed (finishKey Q k res q) = (case res of Inl _ \<Rightarrow> if open_q q then insert k (owed q) else owed q | Inr _ \<Rightarrow> owed q)"
  using assms by (auto simp: queue_laws_def finishKey_def split: sum.split)

lemma queue_laws_get:
  assumes "queue_laws Q open_q owed"
  shows "q_get Q q = Item k q' \<Longrightarrow> k \<in> owed q"
    and "q_get Q q = Item k q' \<Longrightarrow> owed q - {k} \<subseteq> owed q' \<and> owed q' \<subseteq> owed q \<and> (\<not> open_q q \<longrightarrow> k \<notin> owed q')"
    and "q_get Q q = Item k q' \<Longrightarrow> open_q q' = open_q q" and "q_get Q q = IsShutDown \<Longrightarrow> \<not> open_q q"
    and "q_get Q q = Blocks \<Longrightarrow> open_q q"
  using assms by (simp_all add: queue_laws_def)

lemma worker_inv_start: "open_q q \<Longrightarrow> owed q = {} \<Longrightarrow> worker_inv open_q owed (wstart q w)"
  by (simp add: worker_inv_defs wstart_def filed_def)

lemma worker_inv_onEvent:
  assumes "worker_inv open_q owed s" and "\<not> stopped s" and "adding s = []"
  shows "worker_inv open_q owed (onEvent ep s)"
  using assms
  by (auto simp: worker_inv_defs onEvent_def filed_def fst_mput split: pc.splits)

lemma worker_inv_onTick:
  assumes "worker_inv open_q owed s" and "\<not> stopped s" and "adding s = []" and "set keys = fst ` set (known s)"
  shows "worker_inv open_q owed (onTick keys s)"
  using assms by (auto simp: worker_inv_defs onTick_def split: pc.splits)

lemma worker_inv_pushKey:
  assumes "queue_laws Q open_q owed" and "worker_inv open_q owed s" and "adding s \<noteq> []"
  shows "worker_inv open_q owed (pushKey Q s)"
proof -
  obtain k ks where "adding s = k # ks" using assms(3) by (cases "adding s") auto
  with assms(2) show ?thesis
    by (auto simp: worker_inv_defs pushKey_def queue_laws_simps [OF assms(1)] split: pc.splits)
qed

lemma worker_inv_onDone:
  assumes "queue_laws Q open_q owed" and "worker_inv open_q owed s" and "adding s = []"
  shows "worker_inv open_q owed (onDone Q s)"
  using assms(2,3) queue_laws_simps(4,5) [OF assms(1), of "queue s"]
  by (auto simp: worker_inv_defs onDone_def split: pc.splits)

lemma worker_inv_Get:
  assumes "queue_laws Q open_q owed" and "worker_inv open_q owed s" and "at s = Idle"
    and "q_get Q (queue s) = Item key q"
  shows "worker_inv open_q owed (s\<lparr>queue := q, at := Got key\<rparr>)"
proof -
  from assms(2,3) have inv: "filed (known s)" "owed (queue s) \<union> set (adding s) \<subseteq> fst ` set (known s)"
    "open_while_running open_q s" "\<And>k ep. \<not> stopped s \<Longrightarrow> map_of (known s) k = Some ep \<Longrightarrow> taken_care owed s k ep"
    by (auto simp: worker_inv_def owes_known_def)
  have "taken_care owed (s\<lparr>queue := q, at := Got key\<rparr>) k ep" if "taken_care owed s k ep" for k ep
    using that assms(3) queue_laws_get(2) [OF assms(1,4)] by (auto simp: taken_care_def)
  with inv show ?thesis
    using queue_laws_get(1-3) [OF assms(1,4)] by (auto simp: worker_inv_def owes_known_def open_while_running_def)
qed

lemma worker_inv_Due:
  assumes "queue_laws Q open_q owed" and "worker_inv open_q owed s"
  shows "worker_inv open_q owed (s\<lparr>queue := q_due Q key (queue s)\<rparr>)"
  using assms(2) by (cases "at s") (simp_all add: worker_inv_defs queue_laws_simps [OF assms(1)])

lemma worker_inv_Exit:
  assumes "queue_laws Q open_q owed" and "worker_inv open_q owed s" and "at s = Idle"
    and "q_get Q (queue s) = IsShutDown"
  shows "worker_inv open_q owed (s\<lparr>at := Exited\<rparr>)"
  using assms(2,3) queue_laws_get(4) [OF assms(1,4)] by (auto simp: worker_inv_defs)

lemma worker_inv_Lookup:
  assumes "worker_inv open_q owed s" and "at s = Got key"
  shows "worker_inv open_q owed (s\<lparr>at := Handling key (map_of (known s) key)\<rparr>)"
proof -
  from assms have "key \<in> fst ` set (known s)" by (simp add: worker_inv_def owes_known_def)
  then obtain ep where ep: "map_of (known s) key = Some ep"
    by (metis map_of_eq_None_iff option.exhaust)
  have "taken_care owed (s\<lparr>at := Handling key (map_of (known s) key)\<rparr>) k ep'"
    if "taken_care owed s k ep'" "map_of (known s) k = Some ep'" for k ep'
    using that assms(2) ep by (auto simp: taken_care_def)
  with assms ep show ?thesis
    by (auto simp: worker_inv_def owes_known_def open_while_running_def)
qed

lemma worker_inv_Finish:
  assumes "queue_laws Q open_q owed" and "worker_inv open_q owed s" and "at s = Handling key found"
  shows "worker_inv open_q owed (s\<lparr>queue := finishKey Q key res (queue s), at := Idle, outside := out,
      ended := (key, found, res = Inr ()) # ended s\<rparr>)"
  using assms(2,3)
  by (cases res) (auto simp: worker_inv_defs queue_laws_simps [OF assms(1)])

lemma worker_inv_step:
  assumes "queue_laws Q open_q owed" and "worker_inv open_q owed s" and "wstep E w collect Q events s t"
  shows "worker_inv open_q owed t"
  using assms(3)
  by cases
     (simp_all add: assms(2) worker_inv_onEvent worker_inv_onTick worker_inv_pushKey [OF assms(1)]
       worker_inv_onDone [OF assms(1)] worker_inv_Get [OF assms(1)] worker_inv_Due [OF assms(1)] worker_inv_Exit [OF assms(1)]
       worker_inv_Lookup worker_inv_Finish [OF assms(1)])

lemma worker_inv_reaches:
  assumes "queue_laws Q open_q owed" and "worker_inv open_q owed s"
  shows "reaches E w collect Q events s t \<Longrightarrow> worker_inv open_q owed t"
  by (induction rule: reaches.induct) (auto intro: assms(2) worker_inv_step [OF assms(1)])

lemma from_events_step: "wstep E w collect Q events s t \<Longrightarrow> from_events events s \<Longrightarrow> from_events events t"
  by (induction rule: wstep.induct) (auto simp: from_events_def onEvent_def onTick_def pushKey_def onDone_def)

lemma from_events_reaches:
  "reaches E w collect Q events s t \<Longrightarrow> from_events events s \<Longrightarrow> from_events events t"
  by (induction rule: reaches.induct) (auto intro: from_events_step)

lemma from_events_start: "from_events events (wstart q w)"
  by (simp add: from_events_def wstart_def)

text \<open>A property of all states between, and of the whole exchange with the outside.\<close>

lemma reaches_justified:
  assumes "reaches E w collect Q events s t" and "from_events events s" and "justified K (hist (outside s))"
    and "\<And>ep. ep \<in> events \<Longrightarrow> justifies K (handleEndpoint E w collect ep)"
  shows "justified K (hist (outside t))"
  using assms(1)
proof (induction rule: reaches.induct)
  case (Step t v)
  have ev: "from_events events t" using Step.hyps(1) assms(2) by (rule from_events_reaches)
  from Step.hyps(2) show ?case
  proof cases
    case (Finish key found res out)
    show ?thesis
    proof (cases found)
      case None
      with Finish Step.IH show ?thesis by (simp add: handleFound_def)
    next
      case (Some ep)
      with Finish ev have "ep \<in> events" by (simp add: from_events_def)
      with Finish Some have "just_rel K (outside t) out"
        using assms(4) [of ep] by (auto simp: handleFound_def dest: obeysD)
      with Step.IH Finish show ?thesis by (simp add: just_rel_def)
    qed
  qed (use Step.IH in \<open>simp_all add: onEvent_def onTick_def pushKey_def onDone_def\<close>)
qed (rule assms(3))

section \<open>The end of the worker\<close>

text \<open>The handling at hand panics, which ends the process.\<close>

definition panics :: "denv \<Rightarrow> Worker \<Rightarrow> collect \<Rightarrow> 'q wstate \<Rightarrow> bool" where
  "panics E w collect s =
     (case at s of
        Handling key found \<Rightarrow> fst (run_state (handleFound E w collect found) (outside s)) = Inl NilDeref
      | _ \<Rightarrow> False)"

text \<open>The steps \<open>processQueue\<close> can still make once \<open>Start\<close> has returned: three for each key that is left.\<close>

fun pc_steps :: "pc \<Rightarrow> nat" where
  "pc_steps Idle = 1"
| "pc_steps (Got k) = 3"
| "pc_steps (Handling k found) = 2"
| "pc_steps Exited = 0"

definition steps_left :: "('q \<Rightarrow> string set) \<Rightarrow> 'q wstate \<Rightarrow> nat" where
  "steps_left owed s = 3 * card (owed (queue s)) + pc_steps (at s)"

lemma stopping_falls:
  assumes "queue_laws Q open_q owed" and "worker_inv open_q owed s" and "stopped s" and "wstep E w collect Q events s t"
  shows "stopped t \<and> steps_left owed t < steps_left owed s"
  using assms(4)
proof cases
  case (Push)
  with assms(2,3) show ?thesis by (simp add: worker_inv_defs)
next
  case (Get key q)
  have "\<not> open_q (queue s)" using assms(2,3) by (simp add: worker_inv_defs)
  with queue_laws_get(1,2) [OF assms(1) Get(3)] have "owed q \<subset> owed (queue s)" by blast
  then have "card (owed q) < card (owed (queue s))"
    by (rule psubset_card_mono [OF queue_laws_simps(1) [OF assms(1)]])
  with Get assms(3) show ?thesis by (simp add: steps_left_def)
next
  case (Finish key found res out)
  have "\<not> open_q (queue s)" using assms(2,3) by (simp add: worker_inv_defs)
  with Finish assms(3) show ?thesis
    by (simp add: steps_left_def queue_laws_simps [OF assms(1)] split: sum.split)
qed (use assms(3) in \<open>simp_all add: steps_left_def\<close>)

lemma stopping_moves:
  assumes "queue_laws Q open_q owed" and "worker_inv open_q owed s" and "stopped s"
    and "at s \<noteq> Exited" and "\<not> panics E w collect s"
  shows "\<exists>t. wstep E w collect Q events s t"
proof (cases "at s")
  case Idle
  have "q_get Q (queue s) \<noteq> Blocks"
    using assms(2,3) queue_laws_get(5) [OF assms(1), of "queue s"] by (auto simp: worker_inv_defs)
  with Idle show ?thesis by (cases "q_get Q (queue s)") (blast intro: wstep.intros)+
next
  case (Handling key found)
  with assms(5) have "fst (run_state (handleFound E w collect found) (outside s)) \<noteq> Inl NilDeref"
    by (simp add: panics_def)
  then show ?thesis
    using wstep.Finish [OF Handling prod.collapse [symmetric]] by blast
qed (use assms(4) in \<open>auto intro: wstep.Lookup\<close>)

interpretation stopping: draining "wstep E w collect Q events"
  "\<lambda>s. queue_laws Q open_q owed \<and> worker_inv open_q owed s \<and> stopped s" "steps_left owed"
  "\<lambda>s. at s = Exited \<or> panics E w collect s"
  for E w collect Q events open_q owed
  by unfold_locales (auto dest: stopping_falls worker_inv_step intro: stopping_moves)

end
