(* ===== verification/Logging.thy ===== *)
theory Logging
  imports Go_Time
begin

text \<open>
  \<open>internal/logging/logging.go\<close>: the logger from its level and format, with the level syntax of
  \<open>log/slog\<close> (a name in any case, optionally with a signed offset). \<open>up\<close> is the Unicode upper-case table
  beyond ASCII.
\<close>

section \<open>Levels of log/slog\<close>

text \<open>\<open>slog.Level\<close> is a machine \<open>int\<close>.\<close>

definition wrap64 :: "int \<Rightarrow> int" where
  "wrap64 x = (x + 2 ^ 63) mod 2 ^ 64 - 2 ^ 63"

definition atoi_digits :: "string \<Rightarrow> int option" where
  "atoi_digits s = (if s \<noteq> [] \<and> list_all isDigit s then Some (int (atoi s)) else None)"

text \<open>\<open>strconv.Atoi\<close>\<close>

definition Atoi :: "string \<Rightarrow> int option" where
  "Atoi s =
     (let v = (case s of
                 c # cs \<Rightarrow> if c = CHR ''-'' then map_option uminus (atoi_digits cs)
                           else if c = CHR ''+'' then atoi_digits cs else atoi_digits s
               | [] \<Rightarrow> None)
      in case v of None \<Rightarrow> None | Some i \<Rightarrow> if - (2 ^ 63) \<le> i \<and> i < 2 ^ 63 then Some i else None)"

definition isSign :: "char \<Rightarrow> bool" where
  "isSign c = (c = CHR ''+'' \<or> c = CHR ''-'')"

definition levelNames :: "(string \<times> int) list" where
  "levelNames = [(''DEBUG'', - 4), (''INFO'', 0), (''WARN'', 4), (''ERROR'', 8)]"

text \<open>\<open>Level.UnmarshalText\<close>\<close>

definition parseLevel :: "(rune \<Rightarrow> rune) \<Rightarrow> string \<Rightarrow> go_error + int" where
  "parseLevel up s =
     (let name = takeWhile (\<lambda>c. \<not> isSign c) s; rest = dropWhile (\<lambda>c. \<not> isSign c) s
      in case (if rest = [] then Some 0 else Atoi rest) of
           None \<Rightarrow> Inl (EWrap (''slog: level string '' @ s) (EExt ''strconv.Atoi''))
         | Some offset \<Rightarrow>
             (case map_of levelNames (ToUpper up name) of
                None \<Rightarrow> Inl (EWrap (''slog: level string '' @ s) (ENew ''unknown name''))
              | Some l \<Rightarrow> Inr (wrap64 (l + offset))))"

section \<open>logging.go\<close>

datatype handler = JSONHandler | TextHandler

record Logger =
  lg_handler :: handler
  lg_level :: int
  lg_attrs :: "(string \<times> string) list"

definition New :: "(rune \<Rightarrow> rune) \<Rightarrow> string \<Rightarrow> string \<Rightarrow> go_error + Logger" where
  "New up level format =
     (case parseLevel up level of
        Inl e \<Rightarrow> Inl (EWrap (''unknown log level '' @ level) e)
      | Inr lvl \<Rightarrow>
          if format = ''json'' then Inr \<lparr>lg_handler = JSONHandler, lg_level = lvl, lg_attrs = []\<rparr>
          else if format = ''text'' then Inr \<lparr>lg_handler = TextHandler, lg_level = lvl, lg_attrs = []\<rparr>
          else Inl (ENew (''unknown log format '' @ format @ '': want json or text'')))"

definition Component :: "Logger \<Rightarrow> string \<Rightarrow> Logger" where
  "Component log name = log\<lparr>lg_attrs := lg_attrs log @ [(''logger'', name)]\<rparr>"

section \<open>Lemmas\<close>

text \<open>The documented levels.\<close>

lemma ToUpper_levels:
  "ToUpper up ''debug'' = ''DEBUG''" "ToUpper up ''info'' = ''INFO''"
  "ToUpper up ''warn'' = ''WARN''" "ToUpper up ''error'' = ''ERROR''"
  by (simp_all add: ToUpper_def runes_def toUpperRune_def string_of_runes_def encode_rune_def char_of_eq_iff)

lemma parseLevel_documented:
  "parseLevel up ''debug'' = Inr (- 4)" "parseLevel up ''info'' = Inr 0"
  "parseLevel up ''warn'' = Inr 4" "parseLevel up ''error'' = Inr 8"
  by (simp_all add: parseLevel_def isSign_def levelNames_def ToUpper_levels wrap64_def Let_def)

lemma New_bad_format:
  "format \<notin> {''json'', ''text''} \<Longrightarrow> \<exists>e. New up level format = Inl e"
  by (auto simp: New_def split: sum.split)

end
