(* ===== verification/Startup.thy ===== *)
theory Startup
  imports Setup Worker_Model Logging
begin

text \<open>
  The two programs: \<open>cmd/main.go\<close> and \<open>cmd/talos-machine-teardown/main.go\<close>. Starting up is a sequence
  of steps, each of which the libraries may refuse; the history lists the steps with their
  outcome. Flag parsing is the \<open>flag\<close> package's: the parsed values are the argument, the
  defaults are given. A result \<open>Inl\<close> is the message before \<open>os.Exit(1)\<close>.
\<close>

section \<open>Steps\<close>

record manager_options =
  mo_metricsAddr :: string
  mo_probeAddr :: string
  mo_leaderElection :: bool
  mo_leaderElectionID :: string
  mo_leaderElectionNamespace :: string
  mo_namespaces :: "string list"
  mo_uncached :: "string list"

datatype startup_step =
    GetConfig
  | AddToScheme string
  | NewManager manager_options
  | AddWorker Worker ZeroconfBrowser BMCLibCollector
  | SetupController controller_options Reconciler
  | AddCredentialGC string
  | AddHealthzCheck string
  | AddReadyzCheck string
  | StartManager

datatype startup_obs = Did startup_step "string option"

text \<open>Who answers a step: \<open>Some\<close> is its error.\<close>

type_synonym launcher = "startup_obs list \<Rightarrow> startup_step \<Rightarrow> string option"

definition step :: "launcher \<Rightarrow> startup_step \<Rightarrow> (startup_obs, unit, string option) prog" where
  "step L st = call (Did st) (\<lambda>h. L h st)"

text \<open>Steps one after the other, up to the first error; each comes with the message for its failure.\<close>

fun run_steps :: "launcher \<Rightarrow> (startup_step \<times> string) list \<Rightarrow> (startup_obs, unit, string + unit) prog" where
  "run_steps L [] = ret (Inr ())"
| "run_steps L ((st, msg) # rest) = do {
     r \<leftarrow> step L st;
     (case r of Some _ \<Rightarrow> ret (Inl msg) | None \<Rightarrow> run_steps L rest)
   }"

section \<open>cmd/main.go\<close>

definition splitNonEmpty :: "(rune \<Rightarrow> bool) \<Rightarrow> string \<Rightarrow> string list" where
  "splitNonEmpty sp s = filter (\<lambda>part. part \<noteq> '''') (map (TrimSpace sp) (Split s (CHR '','')))"

record discovery_flags =
  namespace :: string
  serviceTypes :: string
  mdnsDomain :: string
  mdnsInterfaces :: string
  browseInterval :: duration
  browseWindow :: duration
  resyncInterval :: duration
  collectTimeout :: duration
  credentialsSecret :: string
  defaultCreds :: string
  nameTemplate :: string
  facilityCode :: string
  autoEnrollment :: bool
  redfishPort :: int
  insecureTLS :: bool
  d_leaderElect :: bool
  d_metricsAddr :: string
  d_probeAddr :: string
  d_logLevel :: string
  d_logFormat :: string

definition discovery_defaults :: discovery_flags where
  "discovery_defaults =
     \<lparr>namespace = ''tink'', serviceTypes = ''_redfish._tcp,_obmc_redfish._tcp'', mdnsDomain = ''local.'',
      mdnsInterfaces = '''', browseInterval = 5 * Minute, browseWindow = 30 * Second,
      resyncInterval = 60 * Minute, collectTimeout = 2 * Minute,
      credentialsSecret = ''bmc-discovery-credentials'',
      defaultCreds = ''*=admin:admin,_obmc_console._tcp=root:0penBmc,_obmc_redfish._tcp=root:0penBmc'',
      nameTemplate = '''', facilityCode = ''onprem'', autoEnrollment = False, redfishPort = 0,
      insecureTLS = True, d_leaderElect = False, d_metricsAddr = '':8080'', d_probeAddr = '':8081'',
      d_logLevel = ''info'', d_logFormat = ''json''\<rparr>"

definition discovery_manager :: "discovery_flags \<Rightarrow> manager_options" where
  "discovery_manager f =
     \<lparr>mo_metricsAddr = d_metricsAddr f, mo_probeAddr = d_probeAddr f, mo_leaderElection = d_leaderElect f,
      mo_leaderElectionID = ''tinkerbell-bmc-discovery-controller.discovery.tinkerbell.org'',
      mo_leaderElectionNamespace = namespace f, mo_namespaces = [namespace f], mo_uncached = []\<rparr>"

definition discovery_browser :: "(rune \<Rightarrow> bool) \<Rightarrow> discovery_flags \<Rightarrow> ZeroconfBrowser" where
  "discovery_browser sp f =
     \<lparr>zb_ServiceTypes = Split (serviceTypes f) (CHR '',''), zb_Domain = mdnsDomain f,
      zb_Interval = browseInterval f, zb_Window = browseWindow f,
      zb_Interfaces = splitNonEmpty sp (mdnsInterfaces f)\<rparr>"

definition discovery_collector :: "discovery_flags \<Rightarrow> BMCLibCollector" where
  "discovery_collector f = \<lparr>Timeout = collectTimeout f\<rparr>"

definition discovery_worker :: "discovery_flags \<Rightarrow> (string \<times> Credentials) list \<Rightarrow> Worker" where
  "discovery_worker f defaults =
     \<lparr>w_Syncer = \<lparr>sy_Namespace = namespace f, InsecureTLS = insecureTLS f, NameTemplate = nameTemplate f,
                  FacilityCode = facilityCode f, AutoEnrollment = autoEnrollment f\<rparr>,
      CredentialsSecret = \<lparr>Namespace = namespace f, Name = credentialsSecret f\<rparr>,
      DefaultCredentials = defaults, ResyncInterval = resyncInterval f, RedfishPort = redfishPort f\<rparr>"

definition discovery_steps ::
  "(rune \<Rightarrow> bool) \<Rightarrow> discovery_flags \<Rightarrow> (string \<times> Credentials) list \<Rightarrow> (startup_step \<times> string) list" where
  "discovery_steps sp f defaults =
     [(AddToScheme ''kubernetes'', ''unable to build scheme''),
      (AddToScheme ''bmc'', ''unable to build scheme''),
      (AddToScheme ''tinkerbell'', ''unable to build scheme''),
      (GetConfig, ''unable to get kubeconfig''),
      (NewManager (discovery_manager f), ''unable to create manager''),
      (AddWorker (discovery_worker f defaults) (discovery_browser sp f) (discovery_collector f),
         ''unable to add discovery worker''),
      (AddHealthzCheck ''healthz'', ''unable to set up health check''),
      (AddReadyzCheck ''readyz'', ''unable to set up ready check''),
      (StartManager, ''manager exited with error'')]"

definition discovery_main ::
  "launcher \<Rightarrow> (rune \<Rightarrow> rune) \<Rightarrow> (rune \<Rightarrow> bool) \<Rightarrow> discovery_flags \<Rightarrow> (startup_obs, unit, string + unit) prog" where
  "discovery_main L up sp f =
     (case New up (d_logLevel f) (d_logFormat f) of
        Inl _ \<Rightarrow> ret (Inl ''logging'')
      | Inr root \<Rightarrow>
          (case ParseDefaults (defaultCreds f) of
             Inl _ \<Rightarrow> ret (Inl ''invalid --default-credentials'')
           | Inr defaults \<Rightarrow> run_steps L (discovery_steps sp f defaults)))"

section \<open>cmd/talos-machine-teardown/main.go\<close>

definition credentialGCInterval :: duration where
  "credentialGCInterval = 10 * Minute"

record options =
  watchNamespace :: string
  cacheNamespace :: string
  etcdTimeout :: duration
  resetTimeout :: duration
  etcdCallTimeout :: duration
  resetCallTimeout :: duration
  concurrency :: int
  leaderElect :: bool
  metricsAddr :: string
  probeAddr :: string
  logLevel :: string
  logFormat :: string

text \<open>The values \<open>registerFlags\<close> sets when no flag is given.\<close>

definition registerFlags :: options where
  "registerFlags =
     \<lparr>watchNamespace = '''', cacheNamespace = '''', etcdTimeout = 2 * Minute, resetTimeout = 5 * Minute,
      etcdCallTimeout = 10 * Second, resetCallTimeout = 30 * Second, concurrency = 4, leaderElect = True,
      metricsAddr = '':8080'', probeAddr = '':8081'', logLevel = ''info'', logFormat = ''json''\<rparr>"

definition buildManager :: "options \<Rightarrow> manager_options" where
  "buildManager o1 =
     \<lparr>mo_metricsAddr = metricsAddr o1, mo_probeAddr = probeAddr o1, mo_leaderElection = leaderElect o1,
      mo_leaderElectionID = ''talos-machine-teardown.teardown.tinkerbell.org'',
      mo_leaderElectionNamespace = cacheNamespace o1,
      mo_namespaces = (if watchNamespace o1 \<noteq> '''' then [watchNamespace o1] else []),
      mo_uncached = [''Secret'', ''Hardware'']\<rparr>"

definition teardown_reconciler :: "options \<Rightarrow> Reconciler" where
  "teardown_reconciler o1 =
     \<lparr>EtcdTimeout = etcdTimeout o1, ResetTimeout = resetTimeout o1, EtcdCallTimeout = etcdCallTimeout o1,
      ResetCallTimeout = resetCallTimeout o1, CacheNamespace = cacheNamespace o1\<rparr>"

definition teardown_steps :: "options \<Rightarrow> (startup_step \<times> string) list" where
  "teardown_steps o1 =
     [(AddToScheme ''kubernetes'', ''creating manager: building scheme''),
      (AddToScheme ''cluster'', ''creating manager: building scheme''),
      (AddToScheme ''tinkerbell'', ''creating manager: building scheme''),
      (GetConfig, ''unable to get kubeconfig''),
      (NewManager (buildManager o1), ''creating manager''),
      (SetupController (SetupWithManager (concurrency o1)) (teardown_reconciler o1), ''setting up controller''),
      (AddCredentialGC (cacheNamespace o1), ''adding credential GC''),
      (AddHealthzCheck ''healthz'', ''setting up health check''),
      (AddReadyzCheck ''readyz'', ''setting up ready check''),
      (StartManager, ''manager'')]"

definition run :: "launcher \<Rightarrow> options \<Rightarrow> (startup_obs, unit, string + unit) prog" where
  "run L o1 =
     (if cacheNamespace o1 = [] then ret (Inl ''--cache-namespace is required when POD_NAMESPACE is unset'')
      else run_steps L (teardown_steps o1))"

text \<open>\<open>main\<close>, with the environment variable \<open>POD_NAMESPACE\<close>.\<close>

definition teardown_main ::
  "launcher \<Rightarrow> (rune \<Rightarrow> rune) \<Rightarrow> string \<Rightarrow> options \<Rightarrow> (startup_obs, unit, string + unit) prog" where
  "teardown_main L up pod_namespace o0 =
     (let o1 = (if cacheNamespace o0 = '''' then o0\<lparr>cacheNamespace := pod_namespace\<rparr> else o0)
      in case New up (logLevel o1) (logFormat o1) of
           Inl _ \<Rightarrow> ret (Inl ''logging'')
         | Inr root \<Rightarrow> run L o1)"

text \<open>
  \<open>credentialGC\<close>: a sweep at the start and one per tick, until the context ends after
  \<open>n\<close> ticks; a failed sweep is logged and the next one comes all the same.
\<close>

fun credentialGC :: "env \<Rightarrow> string \<Rightarrow> nat \<Rightarrow> (obs, unit, unit) prog" where
  "credentialGC E ns 0 = do { _ \<leftarrow> GC E ns; ret () }"
| "credentialGC E ns (Suc n) = do { _ \<leftarrow> GC E ns; credentialGC E ns n }"

section \<open>Lemmas\<close>

text \<open>The history of steps taken in order: all of them were accepted, or they end with the first refusal.\<close>

definition stopped_at_refusal :: "startup_step list \<Rightarrow> startup_obs list \<Rightarrow> bool \<Rightarrow> bool" where
  "stopped_at_refusal sts new ok =
     (if ok then new = map (\<lambda>st. Did st None) sts
      else \<exists>before st after e. sts = before @ st # after \<and> new = map (\<lambda>st. Did st None) before @ [Did st (Some e)])"

lemma stopped_Cons: "stopped_at_refusal sts new ok \<Longrightarrow> stopped_at_refusal (st # sts) (Did st None # new) ok"
  by (cases ok) (force simp: stopped_at_refusal_def intro: exI [of _ "st # _"])+

lemma wp_run_steps:
  "wp (run_steps L steps) (\<lambda>r t. \<exists>new. hist t = hist s @ new \<and> stopped_at_refusal (map fst steps) new (r = Inr ())) s"
proof (induction steps arbitrary: s)
  case Nil
  show ?case by (simp add: wp_return stopped_at_refusal_def)
next
  case (Cons item steps)
  obtain st msg where item: "item = (st, msg)" by (cases item)
  show ?case
  proof (cases "L (hist s) st")
    case (Some e)
    then show ?thesis
      by (auto simp: item step_def go_wp stopped_at_refusal_def intro!: exI [of _ "[]"])
  next
    case None
    have "wp (run_steps L steps) (\<lambda>r t. \<exists>new. hist t = hist s @ new \<and>
          stopped_at_refusal (map fst (item # steps)) new (r = Inr ()))
        (s\<lparr>hist := hist s @ [Did st None]\<rparr>)"
      by (rule wp_mono [OF Cons.IH]) (use stopped_Cons in \<open>force simp: item\<close>)
    with None show ?thesis by (simp add: item step_def go_wp)
  qed
qed

lemma splitNonEmpty_nonempty: "'''' \<notin> set (splitNonEmpty sp s)"
  by (simp add: splitNonEmpty_def)

text \<open>Whatever each sweep justifies, all sweeps together justify.\<close>

lemma justifies_credentialGC: "justifies J (GC E ns :: (obs, unit, go_error + unit) prog) \<Longrightarrow> justifies J (credentialGC E ns n)"
  by (induction n) (auto intro!: justifies_rules)

end
