(* ===== verification/Credential_Properties.thy ===== *)
theory Credential_Properties
  imports Scenario Startup
begin

text \<open>
  The properties of the credential cache and of address resolution.
\<close>

section \<open>Reading a configuration\<close>

text \<open>
  C18. Round trip of the cache: when \<open>Ensure\<close> has written, and the API server later answers the keys it wrote with the data it wrote (under
  whatever metadata) while the cluster's own secret is gone, then \<open>Config\<close> gives the
  same decoded configuration, or the same decoding error, as it gave while \<open>Ensure\<close> ran.
\<close>

theorem credentials_survive_cluster:
  assumes "run_state (Ensure E ns cluster) s = (Inr True, s\<lparr>hist := hist s @ new\<rparr>)"
    and "\<And>c h. OCreateSecret c None \<in> set new \<or> OUpdateSecret c None \<in> set new \<Longrightarrow>
           \<exists>c'. get_secret F h (key_of (sec_meta c)) = Inr c' \<and> sec_data c' = sec_data c"
    and "\<And>h. get_secret F h (sourceSecretName cluster) = Inl NotFound"
    and "from_bytes F = from_bytes E"
  shows "fst (run_state (Config F ns cluster) s2) = fst (run_state (Config E ns cluster) s)"
proof -
  obtain source c where source: "get_secret E (hist s) (sourceSecretName cluster) = Inr source"
    and c: "OCreateSecret c None \<in> set new \<or> OUpdateSecret c None \<in> set new"
      "key_of (sec_meta c) = cachedSecretKey ns cluster" "sec_data c = sec_data (cachedCopy ns cluster source)"
    using ensure_wrote [OF assms(1)] by blast
  obtain c' where c': "get_secret F (hist s2 @ [OGetSecret (sourceSecretName cluster) (Inl NotFound)]) (cachedSecretKey ns cluster) = Inr c'"
    "sec_data c' = sec_data (cachedCopy ns cluster source)"
    using assms(2) [OF c(1)] c(2,3) by metis
  have "decodeConfig F c' = decodeConfig E (cachedCopy ns cluster source)"
    using c'(2) assms(4) by (simp add: decodeConfig_def)
  with source c'(1) assms(3) show ?thesis
    by (simp add: Config_def IsNotFound_def)
qed

definition ex_cluster :: ObjectKey where
  "ex_cluster = \<lparr>Namespace = ''ns'', Name = ''c''\<rparr>"

text \<open>A world in which only the cached copy is left.\<close>

definition ex_cache_world :: env where
  "ex_cache_world = ex_cp_world\<lparr>get_secret := (\<lambda>_ k.
     if k = cachedSecretKey ''cache'' ex_cluster then Inr (cachedCopy ''cache'' ex_cluster ex_secret) else Inl NotFound)\<rparr>"

lemma ex_source_not_cached: "sourceSecretName ex_cluster \<noteq> cachedSecretKey ''cache'' ex_cluster"
  by (simp add: sourceSecretName_def cachedSecretKey_def ex_cluster_def)

definition ex_fresh_world :: env where
  "ex_fresh_world = ex_cp_world\<lparr>get_secret := (\<lambda>_ k.
     if k = sourceSecretName ex_cluster then Inr ex_secret else Inl NotFound)\<rparr>"

lemma ex_ensure_run:
  "run_state (Ensure ex_fresh_world ''cache'' ex_cluster) (start []) = (Inr True, (start [])\<lparr>hist :=
     hist (start []) @ [OGetSecret (sourceSecretName ex_cluster) (Inr ex_secret),
       OGetSecret (cachedSecretKey ''cache'' ex_cluster) (Inl NotFound),
       OCreateSecret (cachedCopy ''cache'' ex_cluster ex_secret) None]\<rparr>)"
  using ex_source_not_cached by (simp add: Ensure_def ex_fresh_world_def IsNotFound_def Let_def)

theorem credentials_survive_cluster_witness:
  "fst (run_state (Config ex_cache_world ''cache'' ex_cluster) (start [])) =
   fst (run_state (Config ex_fresh_world ''cache'' ex_cluster) (start []))"
  by (rule credentials_survive_cluster [OF ex_ensure_run])
     (auto simp: ex_cache_world_def ex_fresh_world_def ex_source_not_cached)

text \<open>
  \<open>Config\<close> on every branch: the live secret wins; the cache is read only when the live secret is
  not found; any other failure is returned as it is and the cache stays unread.
\<close>

theorem config_branches:
  "run_state (Config E ns cluster) s =
     (let k = sourceSecretName cluster; live = get_secret E (hist s) k;
          s1 = s\<lparr>hist := hist s @ [OGetSecret k live]\<rparr>;
          c = cachedSecretKey ns cluster; cached = get_secret E (hist s1) c
      in case live of
           Inr secret \<Rightarrow> (decodeConfig E secret, s1)
         | Inl NotFound \<Rightarrow>
             (case cached of Inl e \<Rightarrow> Inl (EApi e) | Inr secret \<Rightarrow> decodeConfig E secret,
              s1\<lparr>hist := hist s1 @ [OGetSecret c cached]\<rparr>)
         | Inl (ApiError e) \<Rightarrow> (Inl (EApi (ApiError e)), s1))"
  by (simp add: Config_def IsNotFound_def Let_def split: sum.split api_error.split)

section \<open>Writing the cache\<close>

text \<open>
  C20. \<open>Ensure\<close> writes nothing but copies of the source secret it has just read: it creates a copy only
  after the cache answered that there is none, it updates one only when the recorded source version
  differs and then under the resource version it has read, and it deletes nothing.
\<close>

theorem ensure_writes_copies:
  assumes "hist (snd (run_state (Ensure E ns cluster) s)) = pre @ x # post" and "hist s = []"
  shows "ensure_justified ns cluster pre x"
proof -
  have "justified (ensure_justified ns cluster) (hist (snd (run_state (Ensure E ns cluster) s)))"
    using justifies_Ensure [of ns cluster E] assms(2) by (auto simp: obeys_def just_rel_def dest: spec [of _ s])
  from justifiedD [OF this assms(1)] show ?thesis .
qed

theorem ensure_writes_copies_witness:
  "ensure_justified ''cache'' ex_cluster
     [OGetSecret (sourceSecretName ex_cluster) (Inr ex_secret),
      OGetSecret (cachedSecretKey ''cache'' ex_cluster) (Inl NotFound)]
     (OCreateSecret (cachedCopy ''cache'' ex_cluster ex_secret) None)"
proof -
  have "hist (snd (run_state (Ensure ex_fresh_world ''cache'' ex_cluster) (start []))) =
      [OGetSecret (sourceSecretName ex_cluster) (Inr ex_secret),
       OGetSecret (cachedSecretKey ''cache'' ex_cluster) (Inl NotFound)] @
      OCreateSecret (cachedCopy ''cache'' ex_cluster ex_secret) None # []"
    using ex_source_not_cached
    by (simp add: Ensure_def ex_fresh_world_def IsNotFound_def Let_def)
  from ensure_writes_copies [OF this] show ?thesis by simp
qed

text \<open>
  Refreshing is idempotent: when the cache holds a copy of the source at its present resource
  version, \<open>Ensure\<close> reports no write and issues only the two reads.
\<close>

theorem ensure_idempotent:
  assumes "get_secret E (hist s) (sourceSecretName cluster) = Inr source"
    and "get_secret E (hist s @ [OGetSecret (sourceSecretName cluster) (Inr source)]) (cachedSecretKey ns cluster)
           = Inr (cachedCopy ns cluster source)"
  shows "run_state (Ensure E ns cluster) s =
     (Inr False, s\<lparr>hist := hist s @ [OGetSecret (sourceSecretName cluster) (Inr source),
        OGetSecret (cachedSecretKey ns cluster) (Inr (cachedCopy ns cluster source))]\<rparr>)"
  using assms by (simp add: Ensure_def Let_def) (simp add: cachedCopy_def mget_def)

theorem ensure_idempotent_witness:
  "fst (run_state (Ensure (ex_cp_world\<lparr>get_secret := (\<lambda>_ k.
       if k = sourceSecretName ex_cluster then Inr ex_secret else Inr (cachedCopy ''cache'' ex_cluster ex_secret))\<rparr>)
      ''cache'' ex_cluster) (start [])) = Inr False"
proof -
  let ?E = "ex_cp_world\<lparr>get_secret := (\<lambda>_ k.
       if k = sourceSecretName ex_cluster then Inr ex_secret else Inr (cachedCopy ''cache'' ex_cluster ex_secret))\<rparr>"
  show ?thesis
    using ensure_idempotent [of ?E "start []" ex_cluster ex_secret "''cache''"] ex_source_not_cached by simp
qed

section \<open>Garbage collection\<close>

text \<open>
  C22. Collection is safe: however many sweeps the background collector makes, failed ones included, a
  cached copy is deleted only right after the Cluster named by its labels was not found and a
  listing of that cluster's Machines showed none that qualifies.
\<close>

theorem gc_deletes_only_stale:
  assumes "hist (snd (run_state (credentialGC E ns n) s)) = pre @ ODeleteSecret secret ans # post" and "hist s = []"
  shows "\<exists>h ms. pre = h @ [OGetCluster (clusterOf secret) (Inl NotFound),
       OListMachines (Namespace (clusterOf secret)) [(CapiClusterNameLabel, Name (clusterOf secret))] [] (Inr ms)] \<and>
     (\<forall>m \<in> set ms. \<not> Qualifies m)"
proof -
  have "justifies gc_justified (credentialGC E ns n)"
    by (intro justifies_credentialGC, unfold GC_def) (intro justifies_rules justifies_GC_loop, simp_all)
  then have "justified gc_justified (hist (snd (run_state (credentialGC E ns n) s)))"
    using assms(2) by (auto simp: obeys_def just_rel_def dest: spec [of _ s])
  from justifiedD [OF this assms(1)] show ?thesis
    by (simp add: gc_evidence_def)
qed

definition ex_copy :: Secret where
  "ex_copy = cachedCopy ''cache'' ex_cluster ex_secret"

definition ex_gc_world :: env where
  "ex_gc_world = (ex_world ex_victim [] 0)\<lparr>get_cluster := (\<lambda>_ _. Inl NotFound), list_secrets := (\<lambda>_ _ _. Inr [ex_copy])\<rparr>"

lemma ex_gc_run:
  "run_state (GC ex_gc_world ''cache'') s =
     (Inr (), s\<lparr>hist := hist s @ [OListSecrets ''cache'' [ClusterNameLabel] (Inr [ex_copy]),
        OGetCluster ex_cluster (Inl NotFound),
        OListMachines ''ns'' [(CapiClusterNameLabel, ''c'')] [] (Inr []),
        ODeleteSecret ex_copy None]\<rparr>)"
  by (simp add: GC_def ex_gc_world_def clusterGone_def IsNotFound_def Let_def ex_copy_def ex_cluster_def)

theorem gc_deletes_only_stale_witness:
  "\<exists>h ms. [OListSecrets ''cache'' [ClusterNameLabel] (Inr [ex_copy]), OGetCluster ex_cluster (Inl NotFound),
       OListMachines ''ns'' [(CapiClusterNameLabel, ''c'')] [] (Inr [])] =
     h @ [OGetCluster ex_cluster (Inl NotFound), OListMachines ''ns'' [(CapiClusterNameLabel, ''c'')] [] (Inr ms)] \<and>
     (\<forall>m \<in> set ms. \<not> Qualifies m)"
proof -
  have "hist (snd (run_state (credentialGC ex_gc_world ''cache'' 0) \<lparr>hist = []\<rparr>)) =
      [OListSecrets ''cache'' [ClusterNameLabel] (Inr [ex_copy]), OGetCluster ex_cluster (Inl NotFound),
       OListMachines ''ns'' [(CapiClusterNameLabel, ''c'')] [] (Inr [])] @ ODeleteSecret ex_copy None # []"
    by (simp add: ex_gc_run)
  from gc_deletes_only_stale [OF this] show ?thesis
    by (simp add: ex_copy_def ex_cluster_def)
qed

text \<open>
  C23. Collection is complete: when a sweep ends without error, the deletion of every copy it listed was accepted (or the copy
  was gone already), or the sweep has seen its Cluster or a qualifying Machine of it.
\<close>

theorem gc_sweeps_all:
  assumes "run_state (GC E ns) s = (Inr (), t)"
    and "list_secrets E (hist s) ns [ClusterNameLabel] = Inr items" and "secret \<in> set items"
  shows "\<exists>new. hist t = hist s @ new \<and>
     (ODeleteSecret secret None \<in> set new \<or> ODeleteSecret secret (Some NotFound) \<in> set new \<or>
      (\<exists>c. OGetCluster (clusterOf secret) (Inr c) \<in> set new) \<or>
      (\<exists>ms m. OListMachines (Namespace (clusterOf secret)) [(CapiClusterNameLabel, Name (clusterOf secret))] [] (Inr ms)
                \<in> set new \<and> m \<in> set ms \<and> Qualifies m))"
proof -
  let ?s = "s\<lparr>hist := hist s @ [OListSecrets ns [ClusterNameLabel] (Inr items)]\<rparr>"
  have "wp (GC E ns) (\<lambda>r t. \<exists>new. hist t = hist ?s @ new \<and> (r = Inr () \<longrightarrow> list_all (\<lambda>x. swept x new) items)) s"
    using wp_GC_loop_swept [of E items ?s] assms(2) by (simp add: GC_def wp_bind wp_call)
  from wp_run [OF assms(1) this] obtain new where "hist t = hist s @ OListSecrets ns [ClusterNameLabel] (Inr items) # new"
    "swept secret new" using assms(3) by (auto simp: list_all_iff)
  then show ?thesis
    by (intro exI [of _ "OListSecrets ns [ClusterNameLabel] (Inr items) # new"]) (auto simp: swept_def keep_evidence_def)
qed

theorem gc_sweeps_all_witness:
  "\<exists>new. hist (snd (run_state (GC ex_gc_world ''cache'') (start []))) = new \<and>
     (ODeleteSecret ex_copy None \<in> set new \<or> ODeleteSecret ex_copy (Some NotFound) \<in> set new)"
proof -
  have "list_secrets ex_gc_world (hist (start [])) ''cache'' [ClusterNameLabel] = Inr [ex_copy]"
    by (simp add: ex_gc_world_def)
  from gc_sweeps_all [OF ex_gc_run this, of ex_copy] show ?thesis
    by (auto simp: ex_gc_run)
qed

text \<open>
  The names of cached copies are not unique: two different clusters (namespace \<open>a\<close>, name \<open>b-c\<close>;
  namespace \<open>a-b\<close>, name \<open>c\<close>) share one cached secret, so that the copy of one overwrites
  the copy of the other.
\<close>

lemma cached_names_collide:
  "cachedSecretName \<lparr>Namespace = ''a'', Name = ''b-c''\<rparr> = cachedSecretName \<lparr>Namespace = ''a-b'', Name = ''c''\<rparr>"
  by (simp add: cachedSecretName_def)

section \<open>Addresses\<close>

text \<open>
  The address chain on every branch: the first internal or external IP of the Machine status, as it stands
  there (an empty one included); otherwise nothing without an infrastructure reference or without the TinkerbellMachine;
  otherwise the first non-empty internal or external IP of its status; otherwise the DHCP address of its
  Hardware. Read failures other than not-found are errors.
\<close>

lemma resolve_address_branches:
  "fst (run_state (resolveAddress E m) s) =
     (case machineIP_of (m_addresses m) of
        Some a \<Rightarrow> Inr a
      | None \<Rightarrow>
          (let k = \<lparr>Namespace = m_namespace m, Name = m_infraName m\<rparr>; tmr = get_tinkerbellmachine E (hist s) k
           in if m_infraName m = '''' then Inr ''''
              else case tmr of
                     Inl NotFound \<Rightarrow> Inr ''''
                   | Inl (ApiError e) \<Rightarrow> Inl (EWrap ''getting TinkerbellMachine'' (EApi (ApiError e)))
                   | Inr tm \<Rightarrow>
                       (case infraIP_of (NestedSlice tm [''status'', ''addresses'']) of
                          Some a \<Rightarrow> Inr a
                        | None \<Rightarrow> fst (run_state (hardwareAddress E tm)
                                     (s\<lparr>hist := hist s @ [OGetTinkerbellMachine k tmr]\<rparr>)))))"
  by (simp add: resolveAddress_def IsNotFound_def Let_def split: option.split sum.split api_error.split)

end
