(* ===== verification/Worker_Verified.thy ===== *)
theory Worker_Verified
  imports Worker_Model
begin

text \<open>
  What the worker does with any collector that keeps the contract \<open>collector\<close>, and so with the
  bmclib collector: resources are written for verified BMCs only.
\<close>

text \<open>The credentials are among the candidates the answer for the Secret gave.\<close>

definition offered :: "Worker \<Rightarrow> Endpoint \<Rightarrow> Credentials \<Rightarrow> dobs list \<Rightarrow> bool" where
  "offered w ep creds h =
     (\<exists>got. DGet TSecret (CredentialsSecret w) got \<in> set h \<and> creds \<in> set (chain w (ep_Service ep) got))"

definition verified_write ::
  "denv \<Rightarrow> Worker \<Rightarrow> (Endpoint \<Rightarrow> Credentials \<Rightarrow> Device \<Rightarrow> dobs list \<Rightarrow> bool) \<Rightarrow> Endpoint \<Rightarrow> dobs list \<Rightarrow> dobs \<Rightarrow> bool" where
  "verified_write E w evidence ep pre x =
     (is_dwrite x \<longrightarrow>
        (\<exists>dev creds. offered w ep creds pre \<and> evidence ep creds dev pre \<and>
           write_ok E ep (sync_plan E (w_Syncer w) ep dev creds) pre x))"

text \<open>Over a whole run: every write is verified, for an endpoint of the browser.\<close>

definition run_write ::
  "denv \<Rightarrow> Worker \<Rightarrow> (Endpoint \<Rightarrow> Credentials \<Rightarrow> Device \<Rightarrow> dobs list \<Rightarrow> bool) \<Rightarrow> Endpoint set \<Rightarrow> dobs list \<Rightarrow> dobs \<Rightarrow> bool" where
  "run_write E w evidence events pre x =
     (is_dwrite x \<longrightarrow> (\<exists>ep \<in> events. verified_write E w evidence (overridePort w ep) pre x))"

text \<open>Reads and creations of a namespace; applies carry theirs inside the payload.\<close>

fun in_namespace :: "string \<Rightarrow> dobs \<Rightarrow> bool" where
  "in_namespace ns (DGet _ key _) = (Namespace key = ns)"
| "in_namespace ns (DCreate obj _ _) = (om_namespace (k_meta obj) = ns)"
| "in_namespace ns _ = True"

lemma is_bmc_in_namespace: "is_bmc x \<Longrightarrow> in_namespace ns x"
  by (cases x) auto

lemma namespace_applyManaged:
  "om_namespace (k_meta obj) = ns \<Longrightarrow> emits (in_namespace ns) (applyManaged E ty obj ep carry)"
  by (rule obeysI)
     (auto simp: wp_applyManaged Let_def emits_rel_def key_of_def stamped_def split: sum.split api_error.split)

lemma namespace_Sync: "emits (in_namespace (sy_Namespace s)) (Sync E s ep dev_ptr creds)"
  unfolding Sync_def Let_def
  by (intro emits_rules namespace_applyManaged)
     (simp_all add: DesiredAuthSecret_def DesiredMachine_def DesiredHardware_def meta_of_def hardwareOptions_def Let_def)

context collector
begin

lemma emits_tryCandidates: "emits is_bmc (tryCandidates collect ep cs lastErr)"
  by (induction cs arbitrary: lastErr) (auto intro!: go_effect bmc_only)

lemma wp_tryCandidates:
  "wp (tryCandidates collect ep cs lastErr)
     (\<lambda>v t. \<forall>dev creds. v = Verified dev creds \<longrightarrow>
        creds \<in> set (map cc_creds cs) \<and> evidence ep creds dev (hist t)) s"
proof (induction cs arbitrary: lastErr s)
  case Nil
  show ?case by (simp add: go_wp)
next
  case (Cons c cs)
  let ?Q = "\<lambda>v t. \<forall>dev creds. v = Verified dev creds \<longrightarrow>
        creds \<in> set (map cc_creds (c # cs)) \<and> evidence ep creds dev (hist t)"
  have "wp (tryCandidates collect ep cs e) ?Q t" for e t
    by (rule wp_mono [OF Cons.IH]) auto
  then show ?case
    unfolding tryCandidates.simps wp_bind
    by (intro wp_mono [OF success]) (auto simp: go_wp split: sum.split option.split)
qed

lemma wp_tryCandidates_only:
  assumes "\<And>h x. \<not> is_dwrite x \<Longrightarrow> J h x"
  shows "wp (tryCandidates collect ep cs lastErr)
     (\<lambda>_ t. just_rel J s t \<and> set (hist s) \<subseteq> set (hist t)) s"
proof (rule wp_mono [OF wp_conj [OF obeys_wp obeys_wp]])
  show "justifies J (tryCandidates collect ep cs lastErr)"
    by (rule justifies_emits [OF emits_tryCandidates]) (auto dest: is_bmc_not_write intro!: assms)
  show "emits is_bmc (tryCandidates collect ep cs lastErr)" by (rule emits_tryCandidates)
qed (auto simp: emits_rel_def)

lemma handle_verified:
  assumes weaker: "\<And>h x. verified_write E w evidence (overridePort w ep0) h x \<Longrightarrow> K h x"
  shows "justifies K (handleEndpoint E w collect ep0)"
proof (rule obeysI)
  fix s :: dstate
  let ?ep = "overridePort w ep0"
  let ?J = K
  define got where "got = get_object E (hist s) TSecret (CredentialsSecret w)"
  define cs where "cs = defaultCandidates (DefaultCredentials w) (ep_Service ?ep) (secretCandidates got)"
  define s1 where "s1 = s\<lparr>hist := hist s @ [DGet TSecret (CredentialsSecret w) got]\<rparr>"
  have cs_chain: "set (map cc_creds cs) = set (chain w (ep_Service ?ep) got)"
    unfolding cs_def candidates_chain by (simp add: set_firsts)
  have j1: "just_rel ?J s s1"
    by (simp add: just_rel_def s1_def weaker verified_write_def)
  have sync: "obeys (under_rel (\<lambda>h. offered w ?ep creds h \<and> evidence ?ep creds dev h) ?J)
      (Sync E (w_Syncer w) ?ep (Some dev) creds)" for dev creds
  proof (rule under_Sync)
    show "stable (\<lambda>h. offered w ?ep creds h \<and> evidence ?ep creds dev h)"
      using lasting [of ?ep creds dev] by (auto simp: stable_def offered_def)
  qed (intro weaker, unfold verified_write_def, blast)
  have try_j: "wp (tryCandidates collect ?ep cs None)
      (\<lambda>_ t. just_rel ?J s t \<and> DGet TSecret (CredentialsSecret w) got \<in> set (hist t)) s1"
    by (rule wp_mono [OF wp_tryCandidates_only [where J = ?J]])
       (use j1 in \<open>auto simp: weaker verified_write_def just_rel_def s1_def\<close>)
  have "wp (tryCandidates collect ?ep cs None)
      (\<lambda>v. wp (case v of Panicked \<Rightarrow> ret (Inl NilDeref)
                | Unverified lastErr \<Rightarrow> ret (case lastErr of None \<Rightarrow> Inr () | Some e \<Rightarrow> Inl e)
                | Verified dev creds \<Rightarrow> Sync E (w_Syncer w) ?ep (Some dev) creds) (\<lambda>_. just_rel ?J s)) s1"
  proof (rule wp_mono [OF wp_conj [OF try_j wp_tryCandidates]], elim conjE)
    fix v t
    assume t: "just_rel ?J s t" "DGet TSecret (CredentialsSecret w) got \<in> set (hist t)"
      and v: "\<forall>dev creds. v = Verified dev creds \<longrightarrow>
          creds \<in> set (map cc_creds cs) \<and> evidence ?ep creds dev (hist t)"
    show "wp (case v of Panicked \<Rightarrow> ret (Inl NilDeref)
                | Unverified lastErr \<Rightarrow> ret (case lastErr of None \<Rightarrow> Inr () | Some e \<Rightarrow> Inl e)
                | Verified dev creds \<Rightarrow> Sync E (w_Syncer w) ?ep (Some dev) creds) (\<lambda>_. just_rel ?J s) t"
    proof (cases v)
      case (Verified dev creds)
      with v t(2) have "offered w ?ep creds (hist t)" "evidence ?ep creds dev (hist t)"
        by (auto simp: offered_def cs_chain [symmetric])
      with t(1) have "wp (Sync E (w_Syncer w) ?ep (Some dev) creds) (\<lambda>_. just_rel ?J s) t"
        by (intro wp_mono [OF obeys_wp [OF sync [of creds dev]]]) (auto simp: under_rel_def just_rel_def)
      with Verified show ?thesis by simp
    qed (use t(1) in \<open>auto simp: go_wp\<close>)
  qed
  with j1 show "wp (handleEndpoint E w collect ep0) (\<lambda>_. just_rel ?J s) s"
    by (simp add: handleEndpoint_def credentialCandidates_def go_wp Let_def
          got_def [symmetric] cs_def [symmetric] s1_def [symmetric])
qed

lemma namespace_handle:
  assumes "Namespace (CredentialsSecret w) = sy_Namespace (w_Syncer w)"
  shows "emits (in_namespace (sy_Namespace (w_Syncer w))) (handleEndpoint E w collect ep)"
proof -
  have bmc: "emits (in_namespace ns) (tryCandidates collect ep' cs e)" for ns ep' cs e
    by (rule emits_mono [OF emits_tryCandidates]) (rule is_bmc_in_namespace)
  have verdict: "emits P (case v of Panicked \<Rightarrow> m | Unverified e \<Rightarrow> f e | Verified d c \<Rightarrow> g d c)"
    if "emits P m" "\<And>e. emits P (f e)" "\<And>d c. emits P (g d c)" for P v m f g
    using that by (cases v) auto
  show ?thesis
    unfolding handleEndpoint_def credentialCandidates_def Let_def
    by (intro emits_rules verdict bmc namespace_Sync) (use assms in auto)
qed

text \<open>The first thing the handling of an endpoint does is to read the credentials Secret.\<close>

lemma first_read:
  "emits_rel (\<lambda>_. True)
     (s\<lparr>hist := hist s @ [DGet TSecret (CredentialsSecret w) (get_object E (hist s) TSecret (CredentialsSecret w))]\<rparr>)
     (snd (run_state (handleEndpoint E w collect ep) s))"
proof -
  have verdict: "grows (case v of Panicked \<Rightarrow> m | Unverified e \<Rightarrow> f e | Verified d c \<Rightarrow> g d c)"
    if "grows m" "\<And>e. grows (f e)" "\<And>d c. grows (g d c)" for v and m :: "'b dprog" and f g
    using that by (cases v) auto
  have rest: "grows (if cs = [] then ret (Inl (ENew msg)) else
      State_Monad.bind (tryCandidates collect ep' cs None)
        (\<lambda>v. case v of Panicked \<Rightarrow> ret (Inl NilDeref)
              | Unverified lastErr \<Rightarrow> ret (case lastErr of None \<Rightarrow> Inr () | Some e \<Rightarrow> Inl e)
              | Verified dev creds \<Rightarrow> Sync E (w_Syncer w) ep' (Some dev) creds))" for cs msg ep'
    by (intro emits_rules verdict emits_grows [OF emits_tryCandidates] emits_grows [OF namespace_Sync])
  then show ?thesis
    by (simp add: handleEndpoint_def credentialCandidates_def Let_def obeys_def)
qed

lemma run_verified:
  assumes "reaches E w collect Q events (wstart q world0) t" and "hist world0 = []"
  shows "justified (run_write E w evidence events) (hist (outside t))"
proof (rule reaches_justified [OF assms(1) from_events_start])
  show "justifies (run_write E w evidence events) (handleEndpoint E w collect ep)" if "ep \<in> events" for ep
    by (rule handle_verified) (use that in \<open>auto simp: run_write_def\<close>)
qed (simp add: wstart_def assms(2))

end

end
