(* ===== verification/Discovery_Scenario.thy ===== *)
theory Discovery_Scenario
  imports Worker_Verified Startup
begin

text \<open>
  Concrete worlds for the discovery controller, and how its programs run in them: an API server without
  any object that takes every creation, one with managed objects, and a BMC that answers.
\<close>

section \<open>Running in simple worlds\<close>

lemma run_wp: "run_state m s = (a, t) \<longleftrightarrow> wp m (\<lambda>a' t'. a' = a \<and> t' = t) s"
  by (simp add: wp_def split: prod.split)

text \<open>No object exists, every creation is taken.\<close>

definition fresh :: "denv \<Rightarrow> bool" where
  "fresh E = ((\<forall>h ty key. get_object E h ty key = Inl NotFound) \<and> (\<forall>h obj. create_object E h obj = None))"

definition create_trace :: "denv \<Rightarrow> Endpoint \<Rightarrow> dobs list \<Rightarrow> gotype \<Rightarrow> kobj \<Rightarrow> dobs list" where
  "create_trace E ep h ty obj =
     [DNow (clock E h), DGet ty (key_of (k_meta obj)) (Inl NotFound),
      DCreate (stamped (clock E h) ep obj) FieldManager None]"

lemma run_applyManaged_fresh:
  "fresh E \<Longrightarrow> run_state (applyManaged E ty obj ep carry) s =
     (Inr (), s\<lparr>hist := hist s @ create_trace E ep (hist s) ty obj\<rparr>)"
  by (simp add: run_wp wp_applyManaged Let_def fresh_def create_trace_def)

text \<open>Everything exists and is managed, every apply is taken, conversion always gives \<open>j\<close>.\<close>

definition settled :: "denv \<Rightarrow> (gotype \<Rightarrow> kobj) \<Rightarrow> json \<Rightarrow> bool" where
  "settled E live j =
     ((\<forall>h ty key. get_object E h ty key = Inr (live ty)) \<and> (\<forall>h p. apply_object E h p = None) \<and>
      (\<forall>ty. managed (live ty)) \<and> (\<forall>obj. applyConfigurationFor E obj = Inr j))"

definition apply_trace :: "denv \<Rightarrow> (gotype \<Rightarrow> kobj) \<Rightarrow> json \<Rightarrow> dobs list \<Rightarrow> gotype \<Rightarrow> kobj \<Rightarrow> dobs list" where
  "apply_trace E live j h ty obj =
     [DNow (clock E h), DGet ty (key_of (k_meta obj)) (Inr (live ty)), DApply j FieldManager True None]"

lemma run_applyManaged_settled:
  "settled E live j \<Longrightarrow> run_state (applyManaged E ty obj ep carry) s =
     (Inr (), s\<lparr>hist := hist s @ apply_trace E live j (hist s) ty obj\<rparr>)"
  by (simp add: run_wp wp_applyManaged Let_def settled_def apply_trace_def)

section \<open>A BMC and its endpoint\<close>

definition ex_mac :: string where
  "ex_mac = ''AA:BB:CC:00:11:22''"

definition ex_device :: Device where
  "ex_device = \<lparr>Vendor = ''Dell'', Model = ''R650'', Serial = ''SN1'',
     NICs = [None, Some \<lparr>nic_ID = ''nic0'', NICPorts = [None, Some \<lparr>MacAddress = ex_mac\<rparr>]\<rparr>],
     Drives = [Some \<lparr>LogicalName = ''/dev/sda''\<rparr>, None]\<rparr>"

definition ex_entry :: ServiceEntry where
  "ex_entry = \<lparr>se_Instance = ''bmc-1'', se_Service = ''_redfish._tcp'', se_HostName = ''bmc1.local.'',
     se_Port = 443, se_AddrIPv4 = [[10, 0, 0, 7]]\<rparr>"

definition ex_endpoint :: Endpoint where
  "ex_endpoint = \<lparr>ep_Instance = ''bmc-1'', ep_Service = ''_redfish._tcp'', ep_Hostname = ''bmc1.local.'',
     ep_IP = V4 [10, 0, 0, 7], ep_Port = 443\<rparr>"

definition ex_creds :: Credentials where
  "ex_creds = \<lparr>Username = ''admin'', Password = ''admin''\<rparr>"

definition ex_syncer :: Syncer where
  "ex_syncer = \<lparr>sy_Namespace = ''tink'', InsecureTLS = True, NameTemplate = '''', FacilityCode = ''onprem'',
     AutoEnrollment = False\<rparr>"

definition ex_worker :: Worker where
  "ex_worker = \<lparr>w_Syncer = ex_syncer, CredentialsSecret = \<lparr>Namespace = ''tink'', Name = ''creds''\<rparr>,
     DefaultCredentials = [(WildcardService, ex_creds)], ResyncInterval = 60 * Minute, RedfishPort = 0\<rparr>"

definition ex_collector :: BMCLibCollector where
  "ex_collector = \<lparr>Timeout = 2 * Minute\<rparr>"

definition ex_denv :: denv where
  "ex_denv = \<lparr>open_bmc = (\<lambda>_ _ _. None), inventory = (\<lambda>_ _ _. Inr (Some ex_device)),
     redfish_connect = (\<lambda>_ _ _. None), redfish_systems = (\<lambda>_ _. Inr []), redfish_ethernet = (\<lambda>_ _ _. Inr []),
     clock = (\<lambda>_. 0), get_object = (\<lambda>_ _ _. Inl NotFound), create_object = (\<lambda>_ _. None),
     apply_object = (\<lambda>_ _. None), registered = (\<lambda>_. [''ipmitool'', ''gofish'']),
     prefer_driver = (\<lambda>_ ds. ds), bmc_group_version = ''bmc.tinkerbell.org/v1alpha1'',
     tink_group_version = ''tinkerbell.org/v1alpha1'', to_unstructured = (\<lambda>_. Inr JOther),
     remove_nested = (\<lambda>j _. j), lower_table = (\<lambda>r. r)\<rparr>"

lemma fresh_ex_denv: "fresh ex_denv"
  by (simp add: fresh_def ex_denv_def)

lemma EntryToEndpoint_ex: "EntryToEndpoint ex_entry = Some ex_endpoint"
  by (simp add: EntryToEndpoint_def ex_entry_def ex_endpoint_def AddrFromSlice_def)

section \<open>A sync in an empty namespace\<close>

abbreviation ex_plan :: "(gotype \<times> kobj \<times> (kobj \<Rightarrow> kobj \<Rightarrow> kobj) option) list" where
  "ex_plan \<equiv> sync_plan ex_denv ex_syncer ex_endpoint ex_device ex_creds"

definition ex_secret_obj :: kobj where
  "ex_secret_obj = fst (snd (ex_plan ! 0))"

definition ex_machine_obj :: kobj where
  "ex_machine_obj = fst (snd (ex_plan ! 1))"

definition ex_hardware_obj :: kobj where
  "ex_hardware_obj = fst (snd (ex_plan ! 2))"

lemmas ex_obj_defs = ex_secret_obj_def ex_machine_obj_def ex_hardware_obj_def

lemma ex_plan_eq:
  "ex_plan = [(TSecret, ex_secret_obj, None), (TMachine, ex_machine_obj, None),
     (THardware, ex_hardware_obj, Some carryNetboot)]"
  by (simp add: ex_obj_defs sync_plan_def Let_def)

lemma run_Sync_fresh:
  "fresh E \<Longrightarrow> run_state (Sync E s ep (Some dev) creds) w =
     (Inr (), w\<lparr>hist := fold (\<lambda>(ty, obj, _) h. h @ create_trace E ep h ty obj) (sync_plan E s ep dev creds) (hist w)\<rparr>)"
  by (simp add: Sync_def Let_def run_applyManaged_fresh sync_plan_def)

definition ex_sync_trace :: "dobs list" where
  "ex_sync_trace =
     [DNow 0, DGet TSecret (key_of (k_meta ex_secret_obj)) (Inl NotFound),
      DCreate (stamped 0 ex_endpoint ex_secret_obj) FieldManager None,
      DNow 0, DGet TMachine (key_of (k_meta ex_machine_obj)) (Inl NotFound),
      DCreate (stamped 0 ex_endpoint ex_machine_obj) FieldManager None,
      DNow 0, DGet THardware (key_of (k_meta ex_hardware_obj)) (Inl NotFound),
      DCreate (stamped 0 ex_endpoint ex_hardware_obj) FieldManager None]"

lemma run_ex_Sync:
  "run_state (Sync ex_denv ex_syncer ex_endpoint (Some ex_device) ex_creds) w =
     (Inr (), w\<lparr>hist := hist w @ ex_sync_trace\<rparr>)"
  by (simp add: run_Sync_fresh [OF fresh_ex_denv] ex_plan_eq create_trace_def ex_sync_trace_def)
     (simp add: ex_denv_def)

section \<open>A run of the worker\<close>

definition ex_client :: bmc_client where
  "ex_client = newBMCClient ex_denv ex_endpoint ex_creds"

definition ex_collect_trace :: "dobs list" where
  "ex_collect_trace =
     [DOpen ex_client (Timeout ex_collector) None,
      DInventory ex_client (Timeout ex_collector) (Inr (Some ex_device)), DClose ex_client]"

lemma ex_device_mac: "hasNICMAC ex_device"
  by (simp add: hasNICMAC_def nicHasMAC_def ex_device_def ex_mac_def)

lemma run_ex_Collect:
  "run_state (Collect_BMC ex_denv ex_collector ex_endpoint ex_creds) w =
     (Inr (Some ex_device), w\<lparr>hist := hist w @ ex_collect_trace\<rparr>)"
  by (simp add: Collect_BMC_def Let_def ex_client_def [symmetric] ex_collect_trace_def)
     (simp add: ex_denv_def enrichNICs_def ex_device_mac)

definition ex_handle_trace :: "dobs list" where
  "ex_handle_trace = DGet TSecret (CredentialsSecret ex_worker) (Inl NotFound) # ex_collect_trace @ ex_sync_trace"

lemma run_ex_handle:
  "run_state (handleEndpoint ex_denv ex_worker (Collect_BMC ex_denv ex_collector) ex_endpoint) w =
     (Inr (), w\<lparr>hist := hist w @ ex_handle_trace\<rparr>)"
proof -
  have c: "credentialCandidates ex_denv ex_worker ex_endpoint =
      State_Monad.bind (call (DGet TSecret (CredentialsSecret ex_worker)) (\<lambda>_. Inl NotFound))
        (\<lambda>_. ret [\<lparr>cc_creds = ex_creds, cc_source = ''global default''\<rparr>])"
    by (rule state.expand)
       (auto simp: credentialCandidates_def ex_denv_def ex_worker_def secretCandidates_def
          defaultCandidates_def WildcardService_def ex_endpoint_def addCandidate_def fun_eq_iff)
  have o: "overridePort ex_worker ex_endpoint = ex_endpoint" "w_Syncer ex_worker = ex_syncer"
    by (simp_all add: overridePort_def ex_worker_def)
  show ?thesis
    by (simp add: handleEndpoint_def Let_def o c run_ex_Collect run_ex_Sync ex_handle_trace_def)
qed

text \<open>
  A queue after client-go: the keys waiting, those added again while they are processed (\<open>redo\<close>), those being processed, and
  those delayed. A key waits once; \<open>Done\<close> lets a key of \<open>redo\<close> wait again; a shut-down queue drops the
  delayed keys.
\<close>

record work_queue =
  wq_open :: bool
  wq_waiting :: "string list"
  wq_redo :: "string list"
  wq_processing :: "string list"
  wq_delayed :: "string list"

definition wq_add :: "string \<Rightarrow> work_queue \<Rightarrow> work_queue" where
  "wq_add k q =
     (if \<not> wq_open q \<or> k \<in> set (wq_waiting q) \<or> k \<in> set (wq_redo q) then q
      else if k \<in> set (wq_processing q) then q\<lparr>wq_redo := wq_redo q @ [k]\<rparr>
      else q\<lparr>wq_waiting := wq_waiting q @ [k]\<rparr>)"

definition wq_get :: "work_queue \<Rightarrow> work_queue get_result" where
  "wq_get q =
     (case wq_waiting q of
        [] \<Rightarrow> if wq_open q then Blocks else IsShutDown
      | k # ks \<Rightarrow> Item k (q\<lparr>wq_waiting := removeAll k ks, wq_redo := removeAll k (wq_redo q),
          wq_processing := k # wq_processing q\<rparr>))"

definition wq_addRateLimited :: "string \<Rightarrow> work_queue \<Rightarrow> work_queue" where
  "wq_addRateLimited k q = (if wq_open q then q\<lparr>wq_delayed := k # wq_delayed q\<rparr> else q)"

definition wq_due :: "string \<Rightarrow> work_queue \<Rightarrow> work_queue" where
  "wq_due k q =
     (if wq_open q \<and> k \<in> set (wq_delayed q) then wq_add k (q\<lparr>wq_delayed := removeAll k (wq_delayed q)\<rparr>) else q)"

definition wq_done :: "string \<Rightarrow> work_queue \<Rightarrow> work_queue" where
  "wq_done k q =
     (let q' = q\<lparr>wq_processing := removeAll k (wq_processing q)\<rparr>
      in if k \<in> set (wq_redo q) then q'\<lparr>wq_redo := removeAll k (wq_redo q), wq_waiting := wq_waiting q @ [k]\<rparr> else q')"

definition delaying_queue :: "work_queue queue_ops" where
  "delaying_queue =
     \<lparr>q_add = wq_add, q_get = wq_get, q_addRateLimited = wq_addRateLimited, q_forget = (\<lambda>_ q. q), q_done = wq_done,
      q_shutDown = (\<lambda>q. q\<lparr>wq_open := False\<rparr>), q_due = wq_due\<rparr>"

definition wq_owed :: "work_queue \<Rightarrow> string set" where
  "wq_owed q = set (wq_waiting q) \<union> set (wq_redo q) \<union> (if wq_open q then set (wq_delayed q) else {})"

lemma wq_add_owed: "wq_open (wq_add k q) = wq_open q" "wq_owed (wq_add k q) = (if wq_open q then insert k (wq_owed q) else wq_owed q)"
  by (auto simp: wq_add_def wq_owed_def)

lemma delaying_queue_laws: "queue_laws delaying_queue wq_open wq_owed"
proof -
  have "k \<in> wq_owed q \<and> wq_owed q - {k} \<subseteq> wq_owed q' \<and> wq_owed q' \<subseteq> wq_owed q \<and> wq_open q' = wq_open q \<and>
      (\<not> wq_open q \<longrightarrow> k \<notin> wq_owed q')" if "wq_get q = Item k q'" for q k q'
    using that by (auto simp: wq_get_def wq_owed_def split: list.splits if_splits)
  moreover have "wq_open (wq_due k q) = wq_open q \<and> wq_owed (wq_due k q) = wq_owed q" for k q
    by (auto simp: wq_due_def wq_add_owed) (auto simp: wq_owed_def)
  moreover have "wq_open (wq_done k q) = wq_open q \<and> wq_owed (wq_done k q) = wq_owed q" for k q
    by (auto simp: wq_done_def wq_owed_def Let_def)
  moreover have "wq_get q = IsShutDown \<Longrightarrow> \<not> wq_open q" "wq_get q = Blocks \<Longrightarrow> wq_open q" for q
    by (auto simp: wq_get_def split: list.splits if_splits)
  moreover have "finite (wq_owed q)" for q by (simp add: wq_owed_def)
  moreover have "wq_open (wq_addRateLimited k q) = wq_open q \<and>
      wq_owed (wq_addRateLimited k q) = (if wq_open q then insert k (wq_owed q) else wq_owed q)" for k q
    by (auto simp: wq_addRateLimited_def wq_owed_def)
  moreover have "wq_owed (q\<lparr>wq_open := False\<rparr>) \<subseteq> wq_owed q" for q
    by (auto simp: wq_owed_def)
  ultimately show ?thesis
    by (simp add: queue_laws_def delaying_queue_def wq_add_owed)
qed

text \<open>A key that waits and is delayed is delivered, and then owed still.\<close>

lemma delivered_twice:
  "\<exists>q. wq_get (wq_add ''k'' (wq_addRateLimited ''k'' \<lparr>wq_open = True, wq_waiting = [], wq_redo = [], wq_processing = [], wq_delayed = []\<rparr>))
      = Item ''k'' q \<and> ''k'' \<in> wq_owed q"
  by (simp add: wq_get_def wq_add_def wq_addRateLimited_def wq_owed_def)

definition wq :: "string list \<Rightarrow> string list \<Rightarrow> work_queue" where
  "wq waiting processing =
     \<lparr>wq_open = True, wq_waiting = waiting, wq_redo = [], wq_processing = processing, wq_delayed = []\<rparr>"

lemma wq_sel [simp]: "wq_open (wq ks ps)" "wq_owed (wq [] ps) = {}"
  by (simp_all add: wq_def wq_owed_def)

lemma delaying_queue_eval:
  "q_add delaying_queue k (wq [] []) = wq [k] []" "q_get delaying_queue (wq [k] []) = Item k (wq [] [k])"
  "finishKey delaying_queue k (Inr ()) (wq [] [k]) = wq [] []"
  by (simp_all add: delaying_queue_def wq_def wq_add_def wq_get_def wq_done_def finishKey_def)

definition ex_state :: "work_queue \<Rightarrow> string list \<Rightarrow> pc \<Rightarrow> work_queue wstate" where
  "ex_state q ks pc = \<lparr>known = [(Key ex_endpoint, ex_endpoint)], queue = q, adding = ks, stopped = False, at = pc,
     outside = \<lparr>hist = []\<rparr>, ended = []\<rparr>"

definition ex_done :: "work_queue wstate" where
  "ex_done =
     \<lparr>known = [(Key ex_endpoint, ex_endpoint)], queue = wq [] [], adding = [], stopped = False, at = Idle,
      outside = \<lparr>hist = ex_handle_trace\<rparr>, ended = [(Key ex_endpoint, Some ex_endpoint, True)]\<rparr>"

lemma ex_finish:
  "wstep ex_denv ex_worker (Collect_BMC ex_denv ex_collector) delaying_queue events
     (ex_state (wq [] [Key ex_endpoint]) [] (Handling (Key ex_endpoint) (Some ex_endpoint))) ex_done"
proof -
  let ?s = "ex_state (wq [] [Key ex_endpoint]) [] (Handling (Key ex_endpoint) (Some ex_endpoint))"
  have "wstep ex_denv ex_worker (Collect_BMC ex_denv ex_collector) delaying_queue events ?s
      (?s\<lparr>queue := finishKey delaying_queue (Key ex_endpoint) (Inr ()) (queue ?s), at := Idle, outside := \<lparr>hist = ex_handle_trace\<rparr>,
       ended := (Key ex_endpoint, Some ex_endpoint, (Inr () :: go_error + unit) = Inr ()) # ended ?s\<rparr>)"
    by (rule wstep.Finish) (simp_all add: handleFound_def run_ex_handle ex_state_def)
  then show ?thesis by (simp add: ex_done_def ex_state_def delaying_queue_eval)
qed

lemma ex_run:
  assumes "ex_endpoint \<in> events"
  shows "reaches ex_denv ex_worker (Collect_BMC ex_denv ex_collector) delaying_queue events
     (wstart (wq [] []) \<lparr>hist = []\<rparr>) ex_done"
proof -
  let ?step = "wstep ex_denv ex_worker (Collect_BMC ex_denv ex_collector) delaying_queue events"
  let ?k = "Key ex_endpoint"
  have 1: "?step (wstart (wq [] []) \<lparr>hist = []\<rparr>) (ex_state (wq [] []) [?k] Idle)"
    using wstep.Event [of "wstart (wq [] []) \<lparr>hist = []\<rparr>" ex_endpoint events] assms
    by (simp add: onEvent_def wstart_def ex_state_def mput_def)
  have 2: "?step (ex_state (wq [] []) [?k] Idle) (ex_state (wq [?k] []) [] Idle)"
    using wstep.Push [of "ex_state (wq [] []) [?k] Idle" _ _ _ delaying_queue]
    by (simp add: pushKey_def ex_state_def delaying_queue_eval)
  have 3: "?step (ex_state (wq [?k] []) [] Idle) (ex_state (wq [] [?k]) [] (Got ?k))"
    using wstep.Get [of "ex_state (wq [?k] []) [] Idle" delaying_queue ?k "wq [] [?k]"]
    by (simp add: ex_state_def delaying_queue_eval)
  have 4: "?step (ex_state (wq [] [?k]) [] (Got ?k)) (ex_state (wq [] [?k]) [] (Handling ?k (Some ex_endpoint)))"
    using wstep.Lookup [of "ex_state (wq [] [?k]) [] (Got ?k)" ?k] by (simp add: ex_state_def)
  note steps = reaches.Start reaches.Step [OF _ 1] reaches.Step [OF _ 2] reaches.Step [OF _ 3]
    reaches.Step [OF _ 4] reaches.Step [OF _ ex_finish]
  show ?thesis by (rule steps(6), rule steps(5), rule steps(4), rule steps(3), rule steps(2), rule steps(1))
qed

text \<open>The same worker once its context has ended.\<close>

lemma ex_stop:
  assumes "ex_endpoint \<in> events"
  shows "reaches ex_denv ex_worker (Collect_BMC ex_denv ex_collector) delaying_queue events
     (wstart (wq [] []) \<lparr>hist = []\<rparr>) (onDone delaying_queue ex_done)"
  by (rule reaches.Step [OF ex_run [OF assms]], rule wstep.Done) (simp_all add: ex_done_def)

end
