(* ===== verification/Discovery_Properties.thy ===== *)
theory Discovery_Properties
  imports Discovery_Scenario
begin

text \<open>
  The properties of the discovery controller: what a sync writes, what the worker does with an
  endpoint, names, MAC addresses, default credentials, collection and startup.
\<close>

section \<open>Syncing\<close>

text \<open>
  C25. Adoption guard: every write of a sync is for the Secret, the Machine or the Hardware of the endpoint and
  follows directly on the read of that object. A creation follows on not-found and carries the managed-by label; an apply follows on
  a live object that carries the label, is forced under the controller's field manager and
  is the conversion of the stamped object with the live resource version. Objects without the
  label are never written.
\<close>

theorem sync_writes_guarded:
  assumes "hist (snd (run_state (Sync E s ep (Some dev) creds) w)) = pre @ x # post" and "is_dwrite x" and "hist w = []"
  shows "\<exists>(ty, obj, carry) \<in> set (sync_plan E s ep dev creds). \<exists>h got.
     pre = h @ [DGet ty (key_of (k_meta obj)) got] \<and>
     (case got of
        Inl e \<Rightarrow> e = NotFound \<and> (\<exists>t ans. x = DCreate (stamped t ep obj) FieldManager ans)
      | Inr live \<Rightarrow> managed live \<and>
          (\<exists>t payload ans. x = DApply payload FieldManager True ans \<and>
             applyConfigurationFor E (applied_form carry live (stamped t ep obj)) = Inr payload))"
proof -
  have "justified (write_ok E ep (sync_plan E s ep dev creds)) (hist (snd (run_state (Sync E s ep (Some dev) creds) w)))"
    using justifies_Sync [of E ep s dev creds] assms(3) by (simp add: obeys_def just_rel_def)
  from justifiedD [OF this assms(1)] assms(2) obtain item where
    item: "item \<in> set (sync_plan E s ep dev creds)" and "managed_write E ep item pre x"
    by (auto simp: write_ok_def)
  then show ?thesis
    by (intro bexI [OF _ item]) (simp add: managed_write_def guarded_write_def)
qed

theorem sync_writes_guarded_witness:
  "\<exists>(ty, obj, carry) \<in> set ex_plan. \<exists>h got.
     [DNow 0, DGet TSecret (key_of (k_meta ex_secret_obj)) (Inl NotFound)] = h @ [DGet ty (key_of (k_meta obj)) got]"
proof -
  let ?x = "DCreate (stamped 0 ex_endpoint ex_secret_obj) FieldManager None"
  have tr: "hist (snd (run_state (Sync ex_denv ex_syncer ex_endpoint (Some ex_device) ex_creds) \<lparr>hist = []\<rparr>)) =
     [DNow 0, DGet TSecret (key_of (k_meta ex_secret_obj)) (Inl NotFound)] @ ?x # drop 3 ex_sync_trace"
    by (simp add: run_ex_Sync ex_sync_trace_def)
  show ?thesis
    using sync_writes_guarded [OF tr] by fastforce
qed

text \<open>
  C26. Order: a sync reads (and then writes) the Secret, the Machine and the Hardware in this order. It stops at the first error: a read that fails
  for another reason than not-found, a refused creation or a refused apply is its last request and makes its result an error, and so
  does a managed object that cannot be converted; and its result is an error for no other reason, so that it ends well exactly when it went
  through all three without one.
\<close>

theorem sync_in_order:
  "wp (Sync E s ep (Some dev) creds)
     (\<lambda>r t. \<exists>new. hist t = hist w @ new \<and> prefix (gets new) [TSecret, TMachine, THardware] \<and>
        stops_at_error (r = Inr ()) new \<and>
        (r = Inr () \<longrightarrow> gets new = [TSecret, TMachine, THardware])) w"
  by (rule wp_mono [OF wp_Sync_order]) (auto simp: stretch_def)

theorem sync_in_order_witness: "gets ex_sync_trace = [TSecret, TMachine, THardware] \<and> stops_at_error True ex_sync_trace"
  using wp_run [OF run_ex_Sync sync_in_order] by auto

text \<open>
  C27. Refinement: against a server that answers from a store and takes every write, a sync succeeds and the
  store afterwards is the store before with three upserts applied: each creates the object where it is missing,
  leaves it where it is not managed, and applies over it otherwise.
\<close>

theorem sync_refines_upserts:
  assumes "serves E srv \<sigma>" and "\<And>obj. \<exists>j. to_unstructured E obj = Inr j"
  shows "wp (Sync E s ep (Some dev) creds)
     (\<lambda>r w'. r = Inr () \<and> (\<exists>t1 t2 t3. store_at srv \<sigma> (hist w') =
        fold (upsert E srv)
          [at_time t1 ep (sync_plan E s ep dev creds ! 0), at_time t2 ep (sync_plan E s ep dev creds ! 1),
           at_time t3 ep (sync_plan E s ep dev creds ! 2)]
          (store_at srv \<sigma> (hist w)))) w"
proof (rule wpI)
  fix r w' assume run: "run_state (Sync E s ep (Some dev) creds) w = (r, w')"
  let ?plan = "sync_plan E s ep dev creds"
  obtain r' where r': "run_state (runPlan E ep ?plan) w = (r', w')" and iff: "r = Inr () \<longleftrightarrow> r' = Inr ()"
    using run_Sync [of E s ep dev creds w] run by (metis fst_conv prod.collapse snd_conv)
  from wp_run [OF r' refine_runPlan [OF assms]] obtain ts where
    "r' = Inr ()" and len: "length ts = length ?plan" and
    st: "store_at srv \<sigma> (hist w') =
       fold (upsert E srv) (map2 (\<lambda>t. at_time t ep) ts ?plan) (store_at srv \<sigma> (hist w))"
    by blast
  moreover from len obtain t1 t2 t3 where "ts = [t1, t2, t3]"
    by (auto simp: sync_plan_def Let_def length_Suc_conv)
  ultimately show "r = Inr () \<and> (\<exists>t1 t2 t3. store_at srv \<sigma> (hist w') =
        fold (upsert E srv) [at_time t1 ep (?plan ! 0), at_time t2 ep (?plan ! 1), at_time t3 ep (?plan ! 2)]
          (store_at srv \<sigma> (hist w)))"
    using iff by (auto simp: sync_plan_def Let_def)
qed

definition ex_store_env :: denv where
  "ex_store_env = ex_denv\<lparr>get_object := (\<lambda>h ty key.
     case store_at (\<lambda>_ \<sigma>. \<sigma>) (\<lambda>_. None) h (ty, key) of None \<Rightarrow> Inl NotFound | Some obj \<Rightarrow> Inr obj)\<rparr>"

theorem sync_refines_upserts_witness:
  "fst (run_state (Sync ex_store_env ex_syncer ex_endpoint (Some ex_device) ex_creds) \<lparr>hist = []\<rparr>) = Inr ()"
proof -
  have "serves ex_store_env (\<lambda>_ \<sigma>. \<sigma>) (\<lambda>_. None)" "\<And>obj. \<exists>j. to_unstructured ex_store_env obj = Inr j"
    by (simp_all add: serves_def ex_store_env_def ex_denv_def)
  from sync_refines_upserts [OF this, of ex_syncer ex_endpoint ex_device ex_creds "\<lparr>hist = []\<rparr>"] show ?thesis
    by (auto simp: wp_def split: prod.splits)
qed

text \<open>
  C28. Foreign fields: no object a sync creates or applies asserts a field that belongs to other writers. A created Hardware authors the
  default netboot values. A Hardware applied over a live one whose first interface has netboot values carries exactly these on all its interfaces, whatever they are,
  and has an interface whenever the inventory gives a MAC.
\<close>

theorem sync_keeps_foreign_fields:
  assumes "hist (snd (run_state (Sync E s ep (Some dev) creds) w)) = pre @ x # post" and "hist w = []"
  shows "(\<forall>obj fm ans. x = DCreate obj fm ans \<longrightarrow> sparse obj \<and>
       (\<forall>spec. k_body obj = BHardware spec \<longrightarrow>
          list_all (\<lambda>i. if_netboot i = Some \<lparr>AllowPXE = Some True, AllowWorkflow = Some True, nb_ipxe = None, nb_osie = None\<rparr>)
            (hs_interfaces spec))) \<and>
     (\<forall>payload fm force ans. x = DApply payload fm force ans \<longrightarrow>
       (\<exists>h ty key live obj. pre = h @ [DGet ty key (Inr live)] \<and> key_of (k_meta obj) = key \<and>
          applyConfigurationFor E obj = Inr payload \<and> sparse obj \<and>
          (\<forall>lh i n rest. ty = THardware \<and> k_body live = BHardware lh \<and> hs_interfaces lh = i # rest \<and> if_netboot i = Some n \<longrightarrow>
             (\<exists>spec. k_body obj = BHardware spec \<and> list_all (\<lambda>i. if_netboot i = Some n) (hs_interfaces spec) \<and>
                (hs_interfaces spec = [] \<longrightarrow> PrimaryMAC (lower_table E) dev = '''')))))"
proof (cases "is_dwrite x")
  case True
  have "justified (write_ok E ep (sync_plan E s ep dev creds)) (hist (snd (run_state (Sync E s ep (Some dev) creds) w)))"
    using justifies_Sync [of E ep s dev creds] assms(2) by (simp add: obeys_def just_rel_def)
  from justifiedD [OF this assms(1)] True obtain ty obj carry where
    item: "(ty, obj, carry) \<in> set (sync_plan E s ep dev creds)" and "managed_write E ep (ty, obj, carry) pre x"
    by (auto simp: write_ok_def)
  then obtain h got where pre: "pre = h @ [DGet ty (key_of (k_meta obj)) got]" and x: "guarded_write E ep obj carry got x"
    by (auto simp: managed_write_def)
  note sent = plan_sent [OF item]
  show ?thesis
  proof (cases got)
    case (Inl e)
    with x sent(1,2) show ?thesis by (auto simp: guarded_write_def)
  next
    case (Inr live)
    with x pre sent(3,4) show ?thesis by (fastforce simp: guarded_write_def)
  qed
qed auto

text \<open>The tink controller has disarmed PXE on the live Hardware; the sync keeps it so.\<close>

definition ex_disarmed :: Netboot where
  "ex_disarmed = defaultNetboot\<lparr>AllowPXE := Some False\<rparr>"

definition ex_live :: kobj where
  "ex_live = stamped 0 ex_endpoint (ex_hardware_obj\<lparr>k_body := BHardware
     \<lparr>hs_agentID = '''', hs_enrollmentEnabled = False, hs_bmcRef = None, hs_metadata = None,
      hs_interfaces = [\<lparr>if_netboot = Some ex_disarmed, if_dhcp = None\<rparr>],
      hs_disks = [], hs_userData = Some ''cloud-init'', hs_vendorData = None, hs_references = None,
      hs_resources = None, hs_tinkVersion = None\<rparr>\<rparr>)"

definition ex_live_env :: denv where
  "ex_live_env = ex_denv\<lparr>get_object := (\<lambda>_ ty _. if ty = THardware then Inr ex_live else Inl NotFound)\<rparr>"

lemma run_ex_live:
  "hist (snd (run_state (Sync ex_live_env ex_syncer ex_endpoint (Some ex_device) ex_creds) \<lparr>hist = []\<rparr>)) =
     take 6 ex_sync_trace @ [DNow 0, DGet THardware (key_of (k_meta ex_hardware_obj)) (Inr ex_live)] @
     [DApply JOther FieldManager True None]"
proof -
  have missing: "run_state (applyManaged ex_live_env ty obj ep carry) w = (Inr (), w\<lparr>hist := hist w @
      [DNow 0, DGet ty (key_of (k_meta obj)) (Inl NotFound), DCreate (stamped 0 ep obj) FieldManager None]\<rparr>)"
    if "ty \<noteq> THardware" for ty obj ep carry w
    using that by (simp add: run_wp wp_applyManaged Let_def ex_live_env_def ex_denv_def)
  have "managed ex_live" by (simp add: ex_live_def)
  then have live: "run_state (applyManaged ex_live_env THardware obj ep carry) w = (Inr (), w\<lparr>hist := hist w @
      [DNow 0, DGet THardware (key_of (k_meta obj)) (Inr ex_live), DApply JOther FieldManager True None]\<rparr>)"
    for obj ep carry w
    by (simp add: run_wp wp_applyManaged Let_def ex_live_env_def ex_denv_def applyConfigurationFor_def)
  show ?thesis
    by (simp add: Sync_def Let_def missing live ex_sync_trace_def ex_obj_defs sync_plan_def)
       (simp add: ex_live_env_def syncName_def DesiredMachine_def DesiredHardware_def ex_denv_def Let_def)
qed

theorem sync_keeps_foreign_fields_witness:
  "\<exists>obj. applyConfigurationFor ex_live_env obj = Inr JOther \<and> sparse obj \<and>
     (\<exists>spec. k_body obj = BHardware spec \<and> list_all (\<lambda>i. if_netboot i = Some ex_disarmed) (hs_interfaces spec))"
proof -
  let ?pre = "take 6 ex_sync_trace @ [DNow 0, DGet THardware (key_of (k_meta ex_hardware_obj)) (Inr ex_live)]"
  have tr: "hist (snd (run_state (Sync ex_live_env ex_syncer ex_endpoint (Some ex_device) ex_creds) \<lparr>hist = []\<rparr>)) =
      ?pre @ DApply JOther FieldManager True None # []"
    using run_ex_live by simp
  have "k_body ex_live = BHardware (case k_body ex_live of BHardware lh \<Rightarrow> lh)"
    "\<exists>i. hs_interfaces (case k_body ex_live of BHardware lh \<Rightarrow> lh) = [i] \<and> if_netboot i = Some ex_disarmed"
    by (simp_all add: ex_live_def)
  with sync_keeps_foreign_fields [OF tr] show ?thesis by fastforce
qed

section \<open>The worker\<close>

text \<open>
  C29. The candidates for a BMC are, in this order and without repetition, the credentials of the Secret when both its
  keys are filled, the default of the service type and the wildcard default; so there are at most three attempts.
\<close>

theorem candidates_in_order:
  "map cc_creds (fst (run_state (credentialCandidates E w ep) s)) =
     firsts [] (chain w (ep_Service ep) (get_object E (hist s) TSecret (CredentialsSecret w))) \<and>
   distinct (map cc_creds (fst (run_state (credentialCandidates E w ep) s))) \<and>
   length (fst (run_state (credentialCandidates E w ep) s)) \<le> 3"
proof -
  let ?got = "get_object E (hist s) TSecret (CredentialsSecret w)"
  have eq: "map cc_creds (fst (run_state (credentialCandidates E w ep) s)) = firsts [] (chain w (ep_Service ep) ?got)"
    by (simp add: credentialCandidates_def candidates_chain)
  have "length (chain w (ep_Service ep) ?got) \<le> 3"
    by (auto simp: chain_def secretCandidates_def addCandidate_def Let_def split: sum.split option.split)
  with length_firsts [of "[]" "chain w (ep_Service ep) ?got"] arg_cong [OF eq, of length]
  have "length (fst (run_state (credentialCandidates E w ep) s)) \<le> 3" by simp
  with eq distinct_firsts [of "[]" "chain w (ep_Service ep) ?got"] show ?thesis by simp
qed

text \<open>
  C30. No endpoint is lost: in every reachable state of the worker, whatever the interleaving of discoveries, ticks
  and handling, and until its context ends, an endpoint as it was last advertised is owed by the queue or about to be added to it,
  is being handled, or was handled last with success; endpoints are filed under their own keys, and the queue never
  delivers an unknown one.
\<close>

theorem worker_loses_nothing:
  assumes "queue_laws Q open_q owed" and "open_q q" and "owed q = {}"
    and "reaches E w collect Q events (wstart q world0) s"
  shows "(\<forall>k ep. map_of (known s) k = Some ep \<longrightarrow>
       Key ep = k \<and> (stopped s \<or> k \<in> owed (queue s) \<or> k \<in> set (adding s) \<or> at s = Got k \<or> at s = Handling k (Some ep) \<or>
         map_of (ended s) k = Some (Some ep, True))) \<and>
     owed (queue s) \<subseteq> fst ` set (known s) \<and> (\<forall>k. at s \<noteq> Handling k None)"
proof -
  have "worker_inv open_q owed s"
    using worker_inv_reaches [OF assms(1) worker_inv_start [of open_q q owed world0, OF assms(2,3)] assms(4)] .
  then show ?thesis
    by (auto simp: worker_inv_defs filed_def)
qed

theorem worker_loses_nothing_witness:
  "map_of (known ex_done) (Key ex_endpoint) = Some ex_endpoint \<and> (\<forall>k. at ex_done \<noteq> Handling k None)"
proof -
  have r: "reaches ex_denv ex_worker (Collect_BMC ex_denv ex_collector) delaying_queue {ex_endpoint}
      (wstart (wq [] []) \<lparr>hist = []\<rparr>) ex_done"
    by (rule ex_run) simp
  have "\<forall>k. at ex_done \<noteq> Handling k None"
    by (rule conjunct2 [OF conjunct2 [OF worker_loses_nothing [OF delaying_queue_laws _ _ r]]]) simp_all
  moreover have "map_of (known ex_done) (Key ex_endpoint) = Some ex_endpoint"
    by (simp add: ex_done_def)
  ultimately show ?thesis by blast
qed

text \<open>
  C14. Termination of the worker: once \<open>Start\<close> has returned, \<open>processQueue\<close> makes at most three steps for each key the
  queue still owes and three more, whatever the answers to its calls, it is never stuck before it returns (unless the
  handling at hand panics), and so it returns.
\<close>

theorem worker_stops:
  assumes "queue_laws Q open_q owed" and "open_q q" and "owed q = {}"
    and "reaches E w collect Q events (wstart q world0) s" and "stopped s"
  shows "(\<forall>n t. (wstep E w collect Q events ^^ n) s t \<longrightarrow> n \<le> 3 * card (owed (queue s)) + 3) \<and>
     (\<forall>n t. (wstep E w collect Q events ^^ n) s t \<and> (\<nexists>u. wstep E w collect Q events t u) \<longrightarrow>
        at t = Exited \<or> panics E w collect t) \<and>
     (\<exists>n t. (wstep E w collect Q events ^^ n) s t \<and> (at t = Exited \<or> panics E w collect t))"
proof -
  have inv: "queue_laws Q open_q owed \<and> worker_inv open_q owed s \<and> stopped s"
    using worker_inv_reaches [OF assms(1) worker_inv_start [of open_q q owed world0, OF assms(2,3)] assms(4)] assms(1,5)
    by blast
  have "steps_left owed s \<le> 3 * card (owed (queue s)) + 3"
    by (cases "at s") (simp_all add: steps_left_def)
  then have "n \<le> 3 * card (owed (queue s)) + 3" if "(wstep E w collect Q events ^^ n) s t" for n t
    using stopping.runs_bounded [OF that inv] by simp
  moreover have "at t = Exited \<or> panics E w collect t"
    if "(wstep E w collect Q events ^^ n) s t" "\<nexists>u. wstep E w collect Q events t u" for n t
    using stopping.moves [OF stopping.runs_keep [OF that(1) inv]] that(2) by blast
  ultimately show ?thesis using stopping.runs_halt [OF inv] by blast
qed

theorem worker_stops_witness:
  "\<exists>n t. (wstep ex_denv ex_worker (Collect_BMC ex_denv ex_collector) delaying_queue {ex_endpoint} ^^ n)
       (onDone delaying_queue ex_done) t \<and>
     (at t = Exited \<or> panics ex_denv ex_worker (Collect_BMC ex_denv ex_collector) t)"
proof -
  have r: "reaches ex_denv ex_worker (Collect_BMC ex_denv ex_collector) delaying_queue {ex_endpoint}
      (wstart (wq [] []) \<lparr>hist = []\<rparr>) (onDone delaying_queue ex_done)"
    by (rule ex_stop) simp
  show ?thesis
    by (rule conjunct2 [OF conjunct2 [OF worker_stops [OF delaying_queue_laws _ _ r]]]) (simp_all add: onDone_def)
qed

text \<open>
  C31. Wiring: with the worker that \<open>main\<close> builds, everything the handling of an endpoint reads or creates lies in
  the one namespace the manager's cache is restricted to.
\<close>

theorem worker_within_cache:
  assumes "hist (snd (run_state (handleEndpoint E (discovery_worker f defaults) (Collect_BMC E c) ep) w)) = hist w @ new"
    and "x \<in> set new"
  shows "(\<forall>ty key ans. x = DGet ty key ans \<longrightarrow> Namespace key \<in> set (mo_namespaces (discovery_manager f))) \<and>
     (\<forall>obj owner ans. x = DCreate obj owner ans \<longrightarrow> om_namespace (k_meta obj) \<in> set (mo_namespaces (discovery_manager f)))"
proof -
  have "emits (in_namespace (namespace f)) (handleEndpoint E (discovery_worker f defaults) (Collect_BMC E c) ep)"
    using bmclib.namespace_handle [of "discovery_worker f defaults"] by (simp add: discovery_worker_def)
  then have "list_all (in_namespace (namespace f)) new"
    using assms(1) by (auto simp: obeys_def emits_rel_def dest!: spec [of _ w])
  with assms(2) show ?thesis
    by (auto simp: list_all_iff discovery_manager_def)
qed

theorem worker_within_cache_witness:
  "CredentialsSecret (discovery_worker discovery_defaults [(WildcardService, ex_creds)]) =
     \<lparr>Namespace = ''tink'', Name = ''bmc-discovery-credentials''\<rparr> \<and>
   ''tink'' \<in> set (mo_namespaces (discovery_manager discovery_defaults))"
proof -
  let ?w = "discovery_worker discovery_defaults [(WildcardService, ex_creds)]"
  let ?h = "hist (snd (run_state (handleEndpoint ex_denv ?w (Collect_BMC ex_denv ex_collector) ex_endpoint) \<lparr>hist = []\<rparr>))"
  have "emits_rel (\<lambda>_. True) \<lparr>hist = [DGet TSecret (CredentialsSecret ?w) (Inl NotFound)]\<rparr>
      (snd (run_state (handleEndpoint ex_denv ?w (Collect_BMC ex_denv ex_collector) ex_endpoint) \<lparr>hist = []\<rparr>))"
    using bmclib.first_read [of "\<lparr>hist = []\<rparr>" ?w ex_denv] by (simp add: ex_denv_def)
  then obtain new where h: "?h = DGet TSecret (CredentialsSecret ?w) (Inl NotFound) # new"
    by (auto simp: emits_rel_def)
  have c: "CredentialsSecret ?w = \<lparr>Namespace = ''tink'', Name = ''bmc-discovery-credentials''\<rparr>"
    by (simp add: discovery_worker_def discovery_defaults_def)
  with worker_within_cache [of ex_denv discovery_defaults "[(WildcardService, ex_creds)]" ex_collector ex_endpoint
      "\<lparr>hist = []\<rparr>" ?h "DGet TSecret (CredentialsSecret ?w) (Inl NotFound)"] show ?thesis
    by (simp add: h)
qed

section \<open>Names and MAC addresses\<close>

text \<open>
  C32. A sanitized name is empty or an RFC 1123 label (lower-case alphanumerics and inner dashes, at most 63
  characters), whatever bytes come in, and sanitizing again changes nothing.
\<close>

theorem sanitized_names_are_labels:
  "(SanitizeName u s = '''' \<or> rfc1123_label (SanitizeName u s)) \<and>
   SanitizeName v (SanitizeName u s) = SanitizeName u s"
  using SanitizeName_label SanitizeName_idem by blast

text \<open>
  C33. Every endpoint the browser makes of an entry (whose addresses are bytes) gets a valid resource name,
  also where neither its host name nor its instance name leaves anything: the name a sync uses is an RFC 1123 label.
\<close>

theorem endpoint_names_are_labels:
  assumes "EntryToEndpoint entry = Some ep" and "list_all (list_all (\<lambda>b. b < 256)) (se_AddrIPv4 entry)"
  shows "rfc1123_label (syncName E s ep dev) \<and> rfc1123_label (ResourceName u ep)"
proof -
  from assms(1) obtain addr where a: "firstIPv4 (se_AddrIPv4 entry) = Some addr" and ip: "ep_IP ep = addr"
    by (auto simp: EntryToEndpoint_def split: option.splits)
  from firstIPv4_from [OF a] obtain bs addr0 where bs: "bs \<in> set (se_AddrIPv4 entry)"
      and addr0: "AddrFromSlice bs = Some addr0" and addr: "addr = Unmap addr0"
    by blast
  have bytes: "list_all (\<lambda>b. b < 256) bs" using assms(2) bs by (simp add: list_all_iff)
  from addr0 addr firstIPv4_Is4 [OF a] obtain v4 where v4: "addr = V4 v4" "length v4 = 4" "set v4 \<subseteq> set bs"
    by (auto simp: AddrFromSlice_def set_drop_subset split: if_splits)
  have "rfc1123_label (ResourceName u ep)" for u
    by (rule ResourceName_label [of ep v4]) (use v4 bytes ip in \<open>auto simp: list_all_iff\<close>)
  then show ?thesis
    using TemplateName_label [of "lower_table E" "NameTemplate s" ep dev] by (auto simp: syncName_def Let_def)
qed

theorem endpoint_names_are_labels_witness: "rfc1123_label (syncName ex_denv ex_syncer ex_endpoint ex_device)"
  using endpoint_names_are_labels [OF EntryToEndpoint_ex, of ex_denv ex_syncer ex_device id]
  by (simp add: ex_entry_def)

text \<open>
  C34. A template of a label prefix followed by \<open>${mac}\<close> gives each device with a MAC the prefix and its twelve hex
  digits, so that devices with different primary MACs never share resources.
\<close>

theorem mac_template_unique:
  assumes "dash_free True p" and "length p \<le> 51"
    and "PrimaryMAC u dev \<noteq> ''''" and "PrimaryMAC u dev' \<noteq> ''''"
  shows "TemplateName u (p @ ''${mac}'') ep dev = p @ ReplaceAll (PrimaryMAC u dev) (CHR '':'') '''' \<and>
     (TemplateName u (p @ ''${mac}'') ep dev = TemplateName u (p @ ''${mac}'') ep' dev' \<longleftrightarrow>
      PrimaryMAC u dev = PrimaryMAC u dev')"
proof -
  have m: "macGroups 5 (PrimaryMAC u d)" if "PrimaryMAC u d \<noteq> ''''" for d
    using PrimaryMAC_pattern [of u d] that by (simp add: macPattern_def)
  show ?thesis
    using TemplateName_mac [OF assms(1,2)] macGroups_inj [OF m m] assms(3,4) by auto
qed

text \<open>The example of the documentation, with the device of the scenario.\<close>

lemma ex_primary: "PrimaryMAC (\<lambda>r. r) ex_device = ''aa:bb:cc:00:11:22''"
proof -
  have "ascii ex_mac" by (simp add: ascii_def ex_mac_def)
  then have "ToLower (\<lambda>r. r) ex_mac = ''aa:bb:cc:00:11:22''"
    by (simp add: ToLower_ascii) (simp add: ex_mac_def lower_char_def char_of_eq_iff)
  moreover have "macPattern ''aa:bb:cc:00:11:22''"
    by (simp add: macPattern_def numeral_eq_Suc hexLower_def of_char_le_iff)
  ultimately show ?thesis
    by (simp add: PrimaryMAC_first validMACs_def devicePorts_def ex_device_def)
qed

theorem mac_template_unique_witness:
  "TemplateName (\<lambda>r. r) ''talos-${mac}'' ex_endpoint ex_device = ''talos-aabbcc001122''"
proof -
  have "dash_free True ''talos-''" by (simp add: labelChar_def of_char_le_iff)
  from mac_template_unique [OF this, of "\<lambda>r. r" ex_device ex_device ex_endpoint ex_endpoint] show ?thesis
    by (simp add: ex_primary ReplaceAll_def)
qed

text \<open>
  C35. The MACs of a device are the first occurrences of its valid, lower-cased port MACs in the order of the
  ports: each matches the pattern, none occurs twice, none is missed, and the primary one is the first of them.
\<close>

theorem device_macs:
  "inbandMACs u dev = firsts [] (filter macPattern (map (\<lambda>p. ToLower u (MacAddress p)) (devicePorts dev))) \<and>
   distinct (inbandMACs u dev) \<and>
   set (inbandMACs u dev) = {m \<in> (\<lambda>p. ToLower u (MacAddress p)) ` set (devicePorts dev). macPattern m} \<and>
   PrimaryMAC u dev = (case inbandMACs u dev of [] \<Rightarrow> '''' | m # _ \<Rightarrow> m)"
  using macOK_inbandMACs [of u dev]
  by (auto simp: inbandMACs_firsts validMACs_def set_firsts macOK_def PrimaryMAC_def)

text \<open>
  A reference in another spelling is no reference: \<open>${MAC}\<close> stays in the text, so that every device gets the
  same name instead of falling back to its own.
\<close>

lemma unmatched_reference_shared: "TemplateName u ''talos-${MAC}'' ep dev = ''talos-mac''"
proof -
  have "templateVar ''${MAC}'' = None"
    by (simp add: templateVar_def varChar_def of_char_le_iff)
  then have "expand vars (''talos-'' @ ''${MAC}'') = (''talos-${MAC}'', False)" for vars
    using expand_plain [of "''talos-''" vars "''${MAC}''"] expand_plain [of "''{MAC}''" vars "[]"]
    by (simp add: expand_char)
  moreover have "SanitizeName u ''talos-${MAC}'' = ''talos-mac''"
  proof -
    have "ToLower u ''talos-${MAC}'' = ''talos-${mac}''"
      by (simp add: ToLower_ascii ascii_def lower_char_def char_of_eq_iff)
    moreover have "runes ''talos-${mac}'' = map of_char ''talos-${mac}''"
      by (rule runes_ascii) (simp add: ascii_def)
    ultimately show ?thesis
      by (simp add: SanitizeName_def labelRune_def TrimRight_def char_of_eq_iff)
  qed
  ultimately show ?thesis by (simp add: TemplateName_def)
qed

section \<open>Default credentials\<close>

text \<open>
  C36. Round trip: default credentials written as \<open><service>=<username>:<password>\<close> entries, one per service, are read
  back as they were. A password may contain colons and equals signs.
\<close>

theorem defaults_round_trip:
  assumes "list_all printable ds" and "distinct (map fst ds)"
  shows "ParseDefaults (printDefaults ds) = Inr ds"
  using ParseDefaults_print [OF assms] .

theorem defaults_round_trip_witness:
  "ParseDefaults ''*=admin:a:b=c,_obmc_console._tcp=root:0penBmc'' =
     Inr [(''*'', \<lparr>Username = ''admin'', Password = ''a:b=c''\<rparr>),
          (''_obmc_console._tcp'', \<lparr>Username = ''root'', Password = ''0penBmc''\<rparr>)]"
  using defaults_round_trip [of "[(''*'', \<lparr>Username = ''admin'', Password = ''a:b=c''\<rparr>),
          (''_obmc_console._tcp'', \<lparr>Username = ''root'', Password = ''0penBmc''\<rparr>)]"]
  by (simp add: printable_def printDefaults_def printEntry_def)

text \<open>
  C37. Errors: a list is refused exactly when it is not empty and one of its comma-separated entries is not of
  the form \<open><service>=<username>:<password>\<close> with all three parts filled; one bad entry refuses the whole list.
\<close>

theorem bad_defaults_refused:
  "(\<exists>e. ParseDefaults s = Inl e) \<longleftrightarrow>
     s \<noteq> '''' \<and> (\<exists>entry \<in> set (Split s (CHR '','')). \<not> (\<exists>d. printable d \<and> entry = printEntry d))"
proof -
  have "(\<exists>e. parseEntry entry = Inl e) \<longleftrightarrow> \<not> (\<exists>d. printable d \<and> entry = printEntry d)"
    if "entry \<in> set (Split s (CHR '',''))" for entry
    using parseEntry_Inr_iff [OF Split_no_sep [OF that]] by (cases "parseEntry entry") auto
  then show ?thesis
    by (auto simp: ParseDefaults_def parseEntries_Inl_iff)
qed

section \<open>Collecting\<close>

text \<open>
  C38. Collection on every branch: a failed open and a failed inventory are returned, wrapped; an inventory is returned
  with at most NICs added, each with a MAC and only when it had none, whatever the
  Redfish enrichment meets; an inventory that is nil without an error is a panic. On every path each BMC and
  Redfish session that was opened is closed.
\<close>

theorem collect_branches:
  "wp (Collect_BMC E c ep creds)
     (\<lambda>r t.
        (let client = newBMCClient E ep creds; ip = Addr_String (ep_IP ep)
         in case open_bmc E (hist s) client (Timeout c) of
              Some err \<Rightarrow> r = Inl (EWrap (''opening BMC connection to '' @ ip) err)
            | None \<Rightarrow>
                (case inventory E (hist s @ [DOpen client (Timeout c) None]) client (Timeout c) of
                   Inl err \<Rightarrow> r = Inl (EWrap (''collecting inventory from '' @ ip) err)
                 | Inr None \<Rightarrow> r = Inl NilDeref
                 | Inr (Some dev) \<Rightarrow> \<exists>dev'. r = Inr (Some dev') \<and> enriched dev dev')) \<and>
        (\<exists>new. hist t = hist s @ new \<and> sessions_balanced new)) s"
  using wp_conj [OF wp_Collect wp_Collect_balanced] by (simp add: collect_outcome_def)

section \<open>Starting up\<close>


end
