(* ===== verification/Spec2Isabelle.thy ===== *)
theory Spec2Isabelle
  imports Teardown_Properties Lifecycle_Properties Credential_Properties Discovery_Properties
begin

text \<open>
  Verification of the Tinkerbell BMC discovery controller and of its companion, the Talos machine
  teardown controller (\<open>src/cmd\<close>, \<open>src/internal\<close>).

  \<^bold>\<open>The programs.\<close>

  \<^item> The discovery controller (\<open>cmd/main.go\<close>) browses mDNS for BMCs
  (\<open>internal/mdns\<close>), verifies each by collecting its inventory over Redfish with candidate credentials
  (\<open>internal/inventory\<close>), and keeps a Secret, a BMC Machine and a Hardware for it
  (\<open>internal/sync\<close>), driven by a worker with a rate-limited queue (\<open>internal/controller\<close>).

  \<^item> The teardown controller (\<open>cmd/talos-machine-teardown/main.go\<close>, \<open>internal/teardown\<close>)
  holds the deletion of a Cluster API Machine at the pre-terminate hook until the node has left etcd
  and has been reset, and then removes its hook. It keeps a cache of Talos credentials that outlives
  the cluster's own secret.

  \<^bold>\<open>How programs are modelled.\<close> A Go function that talks to the outside is a \<open>State_Monad\<close> program
  over a history of requests with their answers (\<open>Go_Prelude\<close>: \<open>call\<close>, \<open>emit\<close>). The answers come from an oracle
  (\<open>env\<close> for the teardown controller, \<open>denv\<close> for the discovery controller) that sees the history so far, so a theorem about
  all oracles is a theorem about all behaviours of the API server, the nodes, the BMCs and the
  clock. Errors are values of \<open>go_error\<close>, with \<open>NilDeref\<close> for a nil pointer panic; deferred calls
  are written at the end of every path. A loop over a slice is a structural recursion, the regular
  expression scanner is a \<open>function\<close> with a length measure, and a loop that ends with its context (browsing,
  garbage collection, the worker) ranges over the number of its rounds or is a step relation. No fuel is used; that
  \<open>processQueue\<close> returns after the end of its context is proved with a weight on its states (C14).

  \<^bold>\<open>Shared ground.\<close> \<open>Go_Prelude\<close>: maps, errors, programs, weakest preconditions (\<open>wp\<close>), the
  locale \<open>effect\<close> for relations that programs keep, and its interpretations \<open>emits\<close>, \<open>justifies\<close>
  and \<open>under\<close> (what is added to the history, what justifies each addition), and the locale \<open>draining\<close> for transition systems that run
  down, interpreted on the stopping worker and on the teardown lifecycle (whence the bounds of one reconcile). \<open>Ledger\<close>: what a history incurs and settles. \<open>Go_Strings\<close>:
  \<open>strings\<close>, \<open>strconv\<close>, UTF-8. \<open>Go_Time\<close>: the RFC 3339 codec, with its round trip. \<open>Kube_Api\<close>: API objects.

  \<^bold>\<open>Teardown.\<close> \<open>Teardown_Types\<close> (\<open>teardown.go\<close>: constants, Machines, requests); \<open>Talos_Client\<close> (\<open>talos.go\<close>);
  \<open>Qualify\<close> (\<open>qualify.go\<close>); \<open>Etcd\<close> (\<open>etcd.go\<close>); \<open>Address\<close> (\<open>address.go\<close>);
  \<open>Credential_Cache\<close> (\<open>credentials.go\<close>); \<open>Reconciler_Model\<close> (\<open>reconciler.go\<close>, every method, the
  Machine under reconciliation being the state \<open>machine\<close>); \<open>Teardown_Metrics\<close> (\<open>metrics.go\<close>, with the agreement of counters and
  records); \<open>Setup\<close> (\<open>setup.go\<close>). \<open>Teardown_Lifecycle\<close> is the abstract contract: the records on a Machine and the steps by which
  they may change. \<open>Reconciler_Release\<close> shows each patch to be such a step (\<open>lifecycle_step\<close>) from the version it was computed from,
  and \<open>Reconciler_Lifecycle\<close> (a history) and \<open>Reconciler_Concurrency\<close> (reconciles of several workers, interleaved) show runs of the
  controller to refine the lifecycle. The manager's client reads Machines from its cache, so a read may lag behind the API server:
  the runs refined are those of \<open>lagging\<close>, in which a step may start from any earlier version. The hypothesis (\<open>cached\<close>) is that
  a read shows the controller's own annotations as they are or once were on the API server, and that patches are merge patches, which
  change only the keys in which the two Machines differ; it is assumed that nobody else writes the annotations of the controller. The properties of a single reconcile hold for all
  answers, so also for stale ones and for those that depend on other reconciles running at the same time. The other lemmas
  are grouped by what they show of a reconcile: \<open>Reconciler_Effects\<close> (which requests each phase makes), \<open>Reconciler_Frame\<close> (what patches leave alone),
  \<open>Reconciler_Release\<close> (what each patch starts from, and when the hook goes), \<open>Reconciler_Guards\<close> (whole reconciles and runs of them),
  \<open>Reconciler_Etcd\<close> and \<open>Reconciler_Reset\<close> (evidence before destructive calls), \<open>Reconciler_Connections\<close>
  (a monitor of the clients in use), \<open>Reconciler_Serial\<close> (one control-plane Machine at a time), \<open>Reconciler_Progress\<close>
  (deadlines, errors). \<open>Scenario\<close> has concrete worlds; the properties are in \<open>Teardown_Properties\<close>, \<open>Lifecycle_Properties\<close>
  and \<open>Credential_Properties\<close>.

  \<^bold>\<open>Discovery.\<close> \<open>Mdns\<close> (\<open>browser.go\<close>, \<open>netip\<close>); \<open>Discovery_World\<close> (inventory data, requests, oracle, the
  locale \<open>collector\<close> for the interface \<open>inventory.Collector\<close>); \<open>Inventory\<close> (\<open>collector.go\<close>, \<open>defaults.go\<close>,
  and the interpretation \<open>bmclib\<close> of \<open>collector\<close>); \<open>Names\<close> (\<open>names.go\<close> and the MAC selection of \<open>mapping.go\<close>);
  \<open>Hardware_Mapping\<close> (the rest of \<open>mapping.go\<close>); \<open>Syncing\<close> (\<open>syncer.go\<close>, with the refinement of an abstract store
  of upserts); \<open>Worker_Model\<close> (\<open>worker.go\<close>, with the step relation \<open>wstep\<close> from the start to the return of \<open>processQueue\<close>, and its invariant);
  \<open>Worker_Verified\<close> (what the worker does with any \<open>collector\<close>). \<open>Logging\<close> and \<open>Startup\<close> have \<open>logging.go\<close> and the two
  \<open>main.go\<close>. \<open>Discovery_Scenario\<close> has concrete worlds; the properties are in \<open>Discovery_Properties\<close>
  and, for the whole chain from advertisement to write, below.

  \<^bold>\<open>What the properties show.\<close> Teardown: release only after recorded conclusions, guarded and
  verified Talos calls, frame of patches, serialization (which, unlike the phases, has no deadline: C24), who is asked as a peer and in
  which order, one verified reset, fail-open after the deadlines, no client leaked or used after its close, no panics, surviving deadlines; the watch admits
  exactly the Machines a reconcile works on; concurrent runs refine the lifecycle, one reconcile sends five patches at most, of which only the last can be
  refused, the counters agree with the records. Credentials: what \<open>Ensure\<close> wrote is what \<open>Config\<close> finds once the cluster's own secret is gone, justified
  writes, safe and complete collection (a sweep that ends well has deleted every stale copy).
  Discovery: the adoption guard, order (with the stop at the first error, by a monitor of the requests) and refinement of a sync, foreign fields and netboot
  carried forward in what is sent, candidates, no lost endpoints, a worker that stops, valid and unique names, MAC selection, the codec of default
  credentials, collection on every branch, the order of startup and its stop at the first refusal. The branches of the address chain are a lemma of
  \<open>Credential_Properties\<close>.

  \<^bold>\<open>Arguments of the model.\<close> Code outside the repository is an argument: answers of the API server,
  the Talos API, bmclib, gofish and zeroconf; the patch helper; the conversion to unstructured content and the removal of a
  nested field; \<open>PreferDriver\<close>; the work queue (\<open>queue_laws\<close>: a key that is both waiting and delayed is delivered twice, the
  step \<open>q_due\<close> being the end of a delay; \<open>delaying_queue\<close> in \<open>Discovery_Scenario\<close>, written after the client-go queue, satisfies them); the Unicode tables beyond
  ASCII; the lenient time parser behind \<open>parseRFC3339\<close>.

  \<^bold>\<open>Not modelled.\<close> Log output (only dereferences in log arguments are), the message texts of events and errors, the TLS and gRPC work
  of the Talos library behind its options, the registry of metrics, flag parsing itself, health probes beyond their registration, the watch
  and cache machinery of controller-runtime, contexts beyond their timeouts and their end, the build-time version variables, and the Helm charts and
  other deployment files. Of the Go sources, what the definitions do not translate is comments, imports, log lines and these
  variables.
\<close>

section \<open>From the advertisement to the write\<close>

text \<open>
  C40. The whole discovery chain: whatever the worker, fed by the browser and collecting through
  bmclib, writes in any interleaving, is for an endpoint with an IPv4 address that
  some entry advertised for a configured service type; before the write, a BMC session at that endpoint was
  opened with credentials from the candidate chain and gave the inventory that the written objects
  describe; and the write itself is guarded by the read directly before it.
\<close>

theorem discovery_end_to_end:
  assumes "reaches E w (Collect_BMC E c) Q (set (concat (Run b cycles))) (wstart q \<lparr>hist = []\<rparr>) s"
    and "hist (outside s) = pre @ x # post" and "is_dwrite x"
  shows "\<exists>look deliver svc opts entry sent ep dev creds.
     (look, deliver) \<in> set cycles \<and> svc \<in> set (zb_ServiceTypes b) \<and> clientOptions b look = Some opts \<and>
     GotEntry entry sent \<in> set (deliver svc (zb_Domain b) opts) \<and> EntryToEndpoint entry = Some ep \<and> Is4 (ep_IP ep) \<and>
     offered w (overridePort w ep) creds pre \<and> bmc_evidence E c (overridePort w ep) creds dev pre \<and>
     (\<exists>item \<in> set (sync_plan E (w_Syncer w) (overridePort w ep) dev creds).
        managed_write E (overridePort w ep) item pre x)"
proof -
  have "justified (run_write E w (bmc_evidence E c) (set (concat (Run b cycles)))) (hist (outside s))"
    by (rule bmclib.run_verified [OF assms(1)]) simp
  from justifiedD [OF this assms(2)] assms(3) obtain ep where ep: "ep \<in> set (concat (Run b cycles))"
    and v: "verified_write E w (bmc_evidence E c) (overridePort w ep) pre x"
    by (auto simp: run_write_def)
  from ep obtain eps where "eps \<in> set (Run b cycles)" "ep \<in> set eps" by auto
  from Run_from [OF this] obtain look deliver svc opts entry sent where
    entry: "(look, deliver) \<in> set cycles" "svc \<in> set (zb_ServiceTypes b)" "clientOptions b look = Some opts"
      "GotEntry entry sent \<in> set (deliver svc (zb_Domain b) opts)" "EntryToEndpoint entry = Some ep"
    by blast
  have "Is4 (ep_IP ep)"
    using entry(5) by (auto simp: EntryToEndpoint_def dest: firstIPv4_Is4 split: option.splits)
  with entry v assms(3) show ?thesis
    unfolding verified_write_def write_ok_def by blast
qed

definition ex_browser :: ZeroconfBrowser where
  "ex_browser = \<lparr>zb_ServiceTypes = [''_redfish._tcp''], zb_Domain = ''local.'', zb_Interval = 5 * Minute,
     zb_Window = 30 * Second, zb_Interfaces = []\<rparr>"

definition ex_cycles :: "((string \<Rightarrow> unit option) \<times> unit deliver) list" where
  "ex_cycles = [(\<lambda>_. None, \<lambda>_ _ _. [GotEntry ex_entry True, EntriesClosed])]"

theorem discovery_end_to_end_witness:
  "\<exists>ep dev creds. Is4 (ep_IP ep) \<and>
     bmc_evidence ex_denv ex_collector (overridePort ex_worker ep) creds dev (take 6 ex_handle_trace)"
proof -
  have run: "reaches ex_denv ex_worker (Collect_BMC ex_denv ex_collector) delaying_queue
      (set (concat (Run ex_browser ex_cycles))) (wstart (wq [] []) \<lparr>hist = []\<rparr>) ex_done"
    by (rule ex_run)
       (simp add: ex_browser_def ex_cycles_def browseOnce_def clientOptions_def EntryToEndpoint_ex)
  have "hist (outside ex_done) = take 6 ex_handle_trace @
      DCreate (stamped 0 ex_endpoint ex_secret_obj) FieldManager None # drop 7 ex_handle_trace"
    by (simp add: ex_done_def ex_handle_trace_def ex_collect_trace_def ex_sync_trace_def)
  from discovery_end_to_end [OF run this] show ?thesis by auto
qed

end
